theory Spec2Isabelle
  imports Main "HOL-Library.Sublist"
begin

section \<open>Strings and the string methods the program calls\<close>

text \<open>
  A JavaScript string is a sequence of UTF-16 code units. The model uses \<open>string\<close>
  (a \<open>char list\<close>): one \<open>char\<close> is one code unit in the range 0..255, which covers
  ASCII and the Latin-1 block. Every string literal and every regular expression of
  \<^verbatim>\<open>src/index.ts\<close> that the model embeds is ASCII.
\<close>

definition is_space :: "char \<Rightarrow> bool" where
  \<comment> \<open>the class \<^verbatim>\<open>\s\<close> (and what \<^verbatim>\<open>trim\<close> strips), below code unit 256:
      TAB, LF, VT, FF, CR, SPACE, NBSP\<close>
  "is_space c = ((of_char c :: nat) \<in> {9, 10, 11, 12, 13, 32, 160})"

definition is_upper :: "char \<Rightarrow> bool" where
  \<comment> \<open>the class \<^verbatim>\<open>[A-Z]\<close>\<close>
  "is_upper c = (65 \<le> (of_char c :: nat) \<and> (of_char c :: nat) \<le> 90)"

definition is_lower :: "char \<Rightarrow> bool" where
  \<comment> \<open>the class \<^verbatim>\<open>[a-z]\<close>\<close>
  "is_lower c = (97 \<le> (of_char c :: nat) \<and> (of_char c :: nat) \<le> 122)"

definition is_digit :: "char \<Rightarrow> bool" where
  \<comment> \<open>the class \<^verbatim>\<open>[0-9]\<close>\<close>
  "is_digit c = (48 \<le> (of_char c :: nat) \<and> (of_char c :: nat) \<le> 57)"

definition ident_start :: "char \<Rightarrow> bool" where
  \<comment> \<open>the class \<^verbatim>\<open>[a-zA-Z_]\<close>\<close>
  "ident_start c = (is_lower c \<or> is_upper c \<or> c = CHR ''_'')"

definition ident_char :: "char \<Rightarrow> bool" where
  \<comment> \<open>the class \<^verbatim>\<open>[a-zA-Z0-9_]\<close>\<close>
  "ident_char c = (is_lower c \<or> is_upper c \<or> is_digit c \<or> c = CHR ''_'')"

definition alnum_or_blank :: "char \<Rightarrow> bool" where
  \<comment> \<open>the class \<^verbatim>\<open>[a-zA-Z0-9 ]\<close>\<close>
  "alnum_or_blank c = (is_lower c \<or> is_upper c \<or> is_digit c \<or> c = CHR '' '')"

definition toLowerCase_char :: "char \<Rightarrow> char" where
  \<comment> \<open>\<^verbatim>\<open>toLowerCase\<close> on one code unit below 256: A-Z, and the Latin-1 capitals
      U+00C0..U+00DE without the multiplication sign U+00D7, move up by 32\<close>
  "toLowerCase_char c =
     (let n = (of_char c :: nat) in
      if (65 \<le> n \<and> n \<le> 90) \<or> (192 \<le> n \<and> n \<le> 222 \<and> n \<noteq> 215)
      then char_of (n + 32) else c)"

definition toLowerCase :: "string \<Rightarrow> string" where
  "toLowerCase s = map toLowerCase_char s"

definition toUpperCase_char :: "char \<Rightarrow> char" where
  \<comment> \<open>\<^verbatim>\<open>toUpperCase\<close> on one code unit of \<^verbatim>\<open>[a-zA-Z0-9]\<close>, the only characters
      \<^verbatim>\<open>toCamelCase\<close> applies it to\<close>
  "toUpperCase_char c = (if is_lower c then char_of ((of_char c :: nat) - 32) else c)"

definition toUpperCase :: "string \<Rightarrow> string" where
  "toUpperCase s = map toUpperCase_char s"

definition startsWith :: "string \<Rightarrow> string \<Rightarrow> bool" where
  \<comment> \<open>\<^verbatim>\<open>s.startsWith(p)\<close>\<close>
  "startsWith s p = prefix p s"

definition trim :: "string \<Rightarrow> string" where
  \<comment> \<open>\<^verbatim>\<open>s.trim()\<close>\<close>
  "trim s = rev (dropWhile is_space (rev (dropWhile is_space s)))"

fun join :: "string \<Rightarrow> string list \<Rightarrow> string" where
  \<comment> \<open>\<^verbatim>\<open>xs.join(sep)\<close>\<close>
  "join sep [] = []"
| "join sep [x] = x"
| "join sep (x # y # ys) = x @ sep @ join sep (y # ys)"

function split_ws :: "string \<Rightarrow> string \<Rightarrow> string list" where
  \<comment> \<open>\<^verbatim>\<open>s.split(/\s+/)\<close>, with the piece read so far as first argument: a run of
      white space ends a piece, also an empty one at either end of the string\<close>
  "split_ws cur [] = [cur]"
| "split_ws cur (c # cs) =
     (if is_space c then cur # split_ws [] (dropWhile is_space cs)
      else split_ws (cur @ [c]) cs)"
  by pat_completeness auto
termination
  by (relation "measure (\<lambda>(cur, s). length s)")
     (auto simp: length_dropWhile_le less_Suc_eq_le)

section \<open>The regular expressions of the program\<close>

text \<open>
  \<^verbatim>\<open>/(k1|k2|...)/.test(s)\<close>, where every alternative is a literal: the search tries
  the positions of \<open>s\<close> from left to right, and the alternatives in order at each.
\<close>

fun re_test :: "string list \<Rightarrow> string \<Rightarrow> bool" where
  "re_test alts [] = list_ex (\<lambda>k. startsWith [] k) alts"
| "re_test alts (c # cs) = (list_ex (\<lambda>k. startsWith (c # cs) k) alts \<or> re_test alts cs)"

text \<open>
  \<^verbatim>\<open>kw\s+([a-zA-Z_][a-zA-Z0-9_]*)\<close> matched at the start of \<open>s\<close>; the result is capture
  group 1. After the literal, the greedy \<^verbatim>\<open>\s+\<close> takes the whole run of white space, and
  giving some of it back never helps, since the next character must be in
  \<^verbatim>\<open>[a-zA-Z_]\<close>; the greedy \<^verbatim>\<open>[a-zA-Z0-9_]*\<close> then takes the whole run of identifier
  characters, and nothing follows it in the pattern.
\<close>

definition match_kw_ident :: "string \<Rightarrow> string \<Rightarrow> string option" where
  "match_kw_ident kw s =
     (if startsWith s kw then
        (let r = drop (length kw) s in
         case dropWhile is_space r of
           [] \<Rightarrow> None
         | c # cs \<Rightarrow>
             if takeWhile is_space r \<noteq> [] \<and> ident_start c
             then Some (c # takeWhile ident_char cs) else None)
      else None)"

fun match_alts :: "string list \<Rightarrow> string \<Rightarrow> string option" where
  \<comment> \<open>\<^verbatim>\<open>(?:k1|k2)\s+(...)\<close> at the start of \<open>s\<close>: the first alternative that leads to a
      match\<close>
  "match_alts [] s = None"
| "match_alts (kw # kws) s =
     (case match_kw_ident kw s of Some m \<Rightarrow> Some m | None \<Rightarrow> match_alts kws s)"

fun re_exec :: "string list \<Rightarrow> string \<Rightarrow> string option" where
  \<comment> \<open>\<^verbatim>\<open>/(?:k1|k2)\s+([a-zA-Z_][a-zA-Z0-9_]*)/.exec(s)\<close>: \<open>None\<close> for \<^verbatim>\<open>null\<close>,
      otherwise group 1 of the leftmost match\<close>
  "re_exec alts [] = match_alts alts []"
| "re_exec alts (c # cs) =
     (case match_alts alts (c # cs) of Some m \<Rightarrow> Some m | None \<Rightarrow> re_exec alts cs)"

section \<open>Data model\<close>

record Flags =
  ai :: bool
  json :: bool
  out :: "string option"
  "help" :: bool
  version :: bool

record PlanAndCode =
  plan :: "string list"
  code :: string

datatype ArtifactType = Function | Component | Script | Api

section \<open>parseArgs\<close>

definition takes_path :: "string list \<Rightarrow> bool" where
  \<comment> \<open>\<^verbatim>\<open>argv[i + 1] && !argv[i + 1].startsWith('--')\<close> on the tokens after position
      \<open>i\<close>: a next token exists, is not the empty string, and does not start with two dashes\<close>
  "takes_path args =
     (case args of [] \<Rightarrow> False | nxt # _ \<Rightarrow> nxt \<noteq> [] \<and> \<not> startsWith nxt ''--'')"

function parse_loop :: "Flags \<Rightarrow> string list \<Rightarrow> string list \<Rightarrow> Flags \<times> string list" where
  \<comment> \<open>the \<^verbatim>\<open>for\<close> loop of \<^verbatim>\<open>parseArgs\<close>: the flags and the list \<^verbatim>\<open>rest\<close> so far, and the
      tokens from position \<open>i\<close> on\<close>
  "parse_loop flags rest [] = (flags, rest)"
| "parse_loop flags rest (arg # args) =
     (if arg = ''--ai'' then parse_loop (flags\<lparr>ai := True\<rparr>) rest args
      else if arg = ''--json'' then parse_loop (flags\<lparr>json := True\<rparr>) rest args
      else if arg = ''--help'' \<or> arg = ''-h'' then parse_loop (flags\<lparr>help := True\<rparr>) rest args
      else if arg = ''--version'' \<or> arg = ''-v''
        then parse_loop (flags\<lparr>version := True\<rparr>) rest args
      else if arg = ''--out'' \<and> takes_path args
        then parse_loop (flags\<lparr>out := Some (hd args)\<rparr>) rest (tl args)
      else if startsWith arg ''--out=''
        then parse_loop (flags\<lparr>out := Some (drop 6 arg)\<rparr>) rest args
      else parse_loop flags (rest @ [arg]) args)"
  by pat_completeness auto
termination
  by (relation "measure (\<lambda>(flags, rest, args). length args)") auto

definition init_flags :: Flags where
  "init_flags = \<lparr>ai = False, json = False, out = None, help = False, version = False\<rparr>"

definition parseArgs :: "string list \<Rightarrow> Flags \<times> string" where
  "parseArgs argv =
     (case parse_loop init_flags [] argv of
        (flags, rest) \<Rightarrow> (flags, trim (join '' '' rest)))"

section \<open>guessType, toCamelCase, guessName\<close>

definition guessType :: "string \<Rightarrow> ArtifactType" where
  "guessType prompt =
     (let p = toLowerCase prompt in
      if re_test [''function''] p \<or>
         re_test [''check'', ''compute'', ''calculate'', ''determine'', ''find'', ''prime'',
                  ''factorial'', ''fibonacci'', ''reverse''] p
      then Function
      else if re_test [''react'', ''component'', ''jsx'', ''tsx''] p then Component
      else if re_test [''endpoint'', ''api'', ''http'', ''express'', ''fetch''] p then Api
      else if re_test [''script'', ''cli'', ''command'', ''utility''] p then Script
      else Function)"

fun camel_words :: "string list \<Rightarrow> string list" where
  \<comment> \<open>the \<^verbatim>\<open>map((w, i) => ...)\<close> of \<^verbatim>\<open>toCamelCase\<close>: index 0 is lowercased, every
      later word gets \<^verbatim>\<open>w.charAt(0).toUpperCase() + w.slice(1).toLowerCase()\<close>\<close>
  "camel_words [] = []"
| "camel_words (w # ws) =
     toLowerCase w # map (\<lambda>w. toUpperCase (take 1 w) @ toLowerCase (drop 1 w)) ws"

definition toCamelCase :: "string \<Rightarrow> string" where
  "toCamelCase input =
     concat (camel_words
       (filter (\<lambda>w. w \<noteq> [])
         (split_ws [] (map (\<lambda>c. if alnum_or_blank c then c else CHR '' '') input))))"

definition guessName :: "string \<Rightarrow> ArtifactType \<Rightarrow> string" where
  "guessName prompt type =
     (case re_exec [''function''] prompt of
        Some mFn \<Rightarrow> mFn
      | None \<Rightarrow>
         (case re_exec [''called'', ''named''] prompt of
            Some mName \<Rightarrow> mName
          | None \<Rightarrow>
             (let base = (if take 24 (toCamelCase prompt) \<noteq> [] then take 24 (toCamelCase prompt)
                          else if type = Component then ''MyComponent'' else ''doWork'') in
              if re_test [''reverse''] (toLowerCase prompt) then ''reverseString''
              else if re_test [''fibonacci'', ''fib''] (toLowerCase prompt) then ''fibonacci''
              else if re_test [''factorial''] (toLowerCase prompt) then ''factorial''
              else if re_test [''debounce''] (toLowerCase prompt) then ''debounce''
              else if re_test [''throttle''] (toLowerCase prompt) then ''throttle''
              else if re_test [''prime''] (toLowerCase prompt) then ''isPrime''
              else base)))"

section \<open>makePlan\<close>

definition makePlan :: "string \<Rightarrow> ArtifactType \<Rightarrow> string \<Rightarrow> string list" where
  "makePlan prompt type name =
     (let steps = [];
          steps = steps @ [''Restate goal: '' @ prompt];
          steps = steps @ [''Identify inputs and outputs.''];
          steps = steps @ [''List edge cases and constraints.''];
          steps = (if type = Function
                   then steps @ [''Design function signature and return type.''] else steps);
          steps = (if type = Component
                   then steps @ [''Sketch props and state; plan rendering.''] else steps);
          steps = (if type = Api
                   then steps @ [''Define route, method, request/response schema, and errors.'']
                   else steps);
          steps = (if type = Script
                   then steps @ [''Define CLI flags, usage, and I/O.''] else steps);
          steps = steps @ [''Outline algorithm in small steps.''];
          steps = steps @ [''Write code with clear comments.''];
          steps = steps @ [''Add basic tests or examples.''];
          steps = steps @ [''Validate on edge cases.'']
      in steps)"

section \<open>The code templates\<close>

text \<open>
  Each template literal of the source is one definition, parameterised by the interpolated
  \<^verbatim>\<open>${name}\<close>; \<open>\<newline>\<close> is the line feed the source writes \<^verbatim>\<open>\n\<close>.
\<close>

definition tpl_prime :: "string \<Rightarrow> string" where
  \<comment> \<open>primality by trial division up to the square root\<close>
  "tpl_prime name =
     ''export function '' @
     name @
     ''(n: number): boolean {\<newline>'' @
     ''  if (!Number.isInteger(n) || n < 2) return false;\<newline>'' @
     ''  for (let i = 2; i * i <= n; i++) {\<newline>'' @
     ''    if (n % i === 0) return false;\<newline>'' @
     ''  }\<newline>'' @
     ''  return true;\<newline>'' @
     ''}\<newline>''"

definition tpl_fibonacci :: "string \<Rightarrow> string" where
  \<comment> \<open>iterative Fibonacci\<close>
  "tpl_fibonacci name =
     ''export function '' @
     name @
     ''(n: number): number {\<newline>'' @
     ''  if (!Number.isInteger(n) || n < 0) throw new Error('n must be a non-negative integer');\<newline>'' @
     ''  if (n <= 1) return n;\<newline>'' @
     ''  let a = 0, b = 1;\<newline>'' @
     ''  for (let i = 2; i <= n; i++) {\<newline>'' @
     ''    const next = a + b;\<newline>'' @
     ''    a = b;\<newline>'' @
     ''    b = next;\<newline>'' @
     ''  }\<newline>'' @
     ''  return b;\<newline>'' @
     ''}\<newline>''"

definition tpl_factorial :: "string \<Rightarrow> string" where
  \<comment> \<open>iterative factorial\<close>
  "tpl_factorial name =
     ''export function '' @
     name @
     ''(n: number): number {\<newline>'' @
     ''  if (!Number.isInteger(n) || n < 0) throw new Error('n must be a non-negative integer');\<newline>'' @
     ''  let acc = 1;\<newline>'' @
     ''  for (let i = 2; i <= n; i++) acc *= i;\<newline>'' @
     ''  return acc;\<newline>'' @
     ''}\<newline>''"

definition tpl_reverse :: "string \<Rightarrow> string" where
  \<comment> \<open>string reversal\<close>
  "tpl_reverse name =
     ''export function '' @
     name @
     ''(s: string): string {\<newline>'' @
     ''  return Array.from(s).reverse().join('' @
     [CHR 0x27, CHR 0x27] @
     '');\<newline>'' @
     ''}\<newline>''"

definition tpl_debounce :: "string \<Rightarrow> string" where
  \<comment> \<open>debounce\<close>
  "tpl_debounce name =
     ''export function '' @
     name @
     ''<T extends (...args: any[]) => any>(fn: T, wait: number) {\<newline>'' @
     ''  let t: NodeJS.Timeout | null = null;\<newline>'' @
     ''  return (...args: Parameters<T>) => {\<newline>'' @
     ''    if (t) clearTimeout(t);\<newline>'' @
     ''    t = setTimeout(() => fn(...args), wait);\<newline>'' @
     ''  };\<newline>'' @
     ''}\<newline>''"

definition tpl_stub :: "string \<Rightarrow> string" where
  \<comment> \<open>the stub that throws \<^verbatim>\<open>Not implemented\<close>\<close>
  "tpl_stub name =
     ''export function '' @
     name @
     ''(/* params */): any {\<newline>'' @
     ''  throw new Error('Not implemented');\<newline>'' @
     ''}\<newline>''"

definition codeTemplateFunction :: "string \<Rightarrow> string \<Rightarrow> string" where
  "codeTemplateFunction name prompt =
     (let p = toLowerCase prompt in
      if re_test [''prime''] p then tpl_prime name
      else if re_test [''fibonacci'', ''fib''] p then tpl_fibonacci name
      else if re_test [''factorial''] p then tpl_factorial name
      else if re_test [''reverse''] p \<and> re_test [''string''] p then tpl_reverse name
      else if re_test [''debounce''] p then tpl_debounce name
      else tpl_stub name)"

definition codeTemplateComponent :: "string \<Rightarrow> string \<Rightarrow> string" where
  "codeTemplateComponent name prompt =
     ''import React, { useState } from 'react';\<newline>'' @
     ''\<newline>'' @
     ''export function '' @
     name @
     ''() {\<newline>'' @
     ''  const [value, setValue] = useState('' @
     [CHR 0x27, CHR 0x27] @
     '');\<newline>'' @
     ''  return (\<newline>'' @
     ''    <div style={{ fontFamily: 'system-ui', padding: 12 }}>\<newline>'' @
     ''      <label>\<newline>'' @
     ''        <span>Value:</span>\<newline>'' @
     ''        <input value={value} onChange={e => setValue(e.target.value)} />\<newline>'' @
     ''      </label>\<newline>'' @
     ''      <pre>Current: {value}</pre>\<newline>'' @
     ''    </div>\<newline>'' @
     ''  );\<newline>'' @
     ''}\<newline>''"

definition codeTemplateAPI :: "string \<Rightarrow> string \<Rightarrow> string" where
  "codeTemplateAPI name prompt =
     ''import http from 'node:http';\<newline>'' @
     ''\<newline>'' @
     ''const server = http.createServer((req, res) => {\<newline>'' @
     ''  if (req.method === 'GET' && req.url === '/health') {\<newline>'' @
     ''    res.writeHead(200, { 'Content-Type': 'application/json' });\<newline>'' @
     ''    res.end(JSON.stringify({ ok: true }));\<newline>'' @
     ''    return;\<newline>'' @
     ''  }\<newline>'' @
     ''  res.writeHead(404);\<newline>'' @
     ''  res.end();\<newline>'' @
     ''});\<newline>'' @
     ''\<newline>'' @
     ''server.listen(3000, () => {\<newline>'' @
     ''  console.log('API listening on http://localhost:3000');\<newline>'' @
     ''});\<newline>''"

definition codeTemplateScript :: "string \<Rightarrow> string \<Rightarrow> string" where
  "codeTemplateScript name prompt =
     ''#!/usr/bin/env node\<newline>'' @
     ''const args = process.argv.slice(2);\<newline>'' @
     ''if (args.length === 0) {\<newline>'' @
     ''  console.log('Usage: my-cli <text>');\<newline>'' @
     ''  process.exit(1);\<newline>'' @
     ''}\<newline>'' @
     ''console.log('You said:', args.join(' '));\<newline>''"

section \<open>makeOfflinePlanAndCode\<close>

definition makeOfflinePlanAndCode :: "string \<Rightarrow> PlanAndCode" where
  "makeOfflinePlanAndCode prompt =
     (let type = guessType prompt;
          name = guessName prompt type;
          plan = makePlan prompt type name;
          code = (case type of
                    Function \<Rightarrow> codeTemplateFunction name prompt
                  | Component \<Rightarrow> codeTemplateComponent name prompt
                  | Api \<Rightarrow> codeTemplateAPI name prompt
                  | Script \<Rightarrow> codeTemplateScript name prompt)
      in \<lparr>plan = plan, code = code\<rparr>)"

section \<open>maybeAIPlanAndCode and main\<close>

text \<open>
  What a run does to the outside is a list of effects, in order. What it reads from the
  outside is a parameter: the environment variable, the reply of the remote service, and
  the functions of \<^verbatim>\<open>node:path\<close> and \<^verbatim>\<open>node:fs\<close>, none of which is code of the repository.
\<close>

datatype effect =
    Log string                \<comment> \<open>\<^verbatim>\<open>console.log\<close> of a text\<close>
  | LogJson PlanAndCode       \<comment> \<open>\<^verbatim>\<open>console.log(JSON.stringify(result, null, 2))\<close>\<close>
  | PrintHelp                 \<comment> \<open>\<^verbatim>\<open>printHelp()\<close>\<close>
  | HttpPost string string    \<comment> \<open>the \<^verbatim>\<open>fetch\<close> request: API key and prompt\<close>
  | WarnExists string         \<comment> \<open>\<^verbatim>\<open>console.warn\<close> that the output path exists\<close>
  | WriteFile string string   \<comment> \<open>\<^verbatim>\<open>writeFileSync(outPath, result.code, 'utf8')\<close>\<close>
  | LogError                  \<comment> \<open>\<^verbatim>\<open>console.error('Unexpected error:', err)\<close>\<close>

record Env =
  api_key :: "string option"
    \<comment> \<open>\<^verbatim>\<open>process.env.HUGGINGFACE_API_KEY\<close>\<close>
  remote_reply :: "string \<Rightarrow> string \<Rightarrow> PlanAndCode option"
    \<comment> \<open>for a key and a prompt, what lines 144 to 164 make of the service's reply:
        \<open>None\<close> for every failure\<close>
  resolve :: "string \<Rightarrow> string"
    \<comment> \<open>\<^verbatim>\<open>resolve(process.cwd(), path)\<close>\<close>
  existsSync :: "string \<Rightarrow> bool"
  write_throws :: "string \<Rightarrow> bool"
    \<comment> \<open>whether \<^verbatim>\<open>writeFileSync\<close> throws on the path\<close>

record Outcome =
  effects :: "effect list"
  exitCode :: nat

definition maybeAIPlanAndCode :: "Env \<Rightarrow> string \<Rightarrow> effect list \<times> PlanAndCode option" where
  "maybeAIPlanAndCode env prompt =
     (case api_key env of
        None \<Rightarrow> ([], None)
      | Some key \<Rightarrow>
          if key = [] then ([], None)
          else ([HttpPost key prompt], remote_reply env key prompt))"

fun show_nat :: "nat \<Rightarrow> string" where
  \<comment> \<open>the decimal numeral of a number, as the template literal prints it\<close>
  "show_nat n =
     (if n < 10 then [char_of (48 + n)]
      else show_nat (n div 10) @ [char_of (48 + n mod 10)])"

fun plan_lines :: "nat \<Rightarrow> string list \<Rightarrow> effect list" where
  \<comment> \<open>\<^verbatim>\<open>result.plan.forEach((s, i) => console.log(`${i + 1}. ${s}`))\<close>, from index \<open>i\<close>\<close>
  "plan_lines i [] = []"
| "plan_lines i (s # ss) = Log (show_nat (i + 1) @ ''. '' @ s) # plan_lines (i + 1) ss"

definition render :: "Flags \<Rightarrow> PlanAndCode \<Rightarrow> effect list" where
  \<comment> \<open>lines 179 to 186\<close>
  "render flags result =
     (if json flags then [LogJson result]
      else [Log ''Planning Layer''] @ plan_lines 0 (plan result) @
           [Log ''\<newline>Final Code'', Log (code result)])"

definition save :: "Env \<Rightarrow> Flags \<Rightarrow> PlanAndCode \<Rightarrow> effect list \<times> nat" where
  \<comment> \<open>lines 188 to 195, with the exit code: a throwing \<^verbatim>\<open>writeFileSync\<close> rejects
      \<^verbatim>\<open>main()\<close>, and the handler of lines 198 to 201 logs and sets exit code 1\<close>
  "save env flags result =
     (case out flags of
        None \<Rightarrow> ([], 0)
      | Some path \<Rightarrow>
          if path = [] then ([], 0)
          else
            (let outPath = resolve env path;
                 warn = (if existsSync env outPath then [WarnExists outPath] else [])
             in if write_throws env outPath then (warn @ [LogError], 1)
                else (warn @ [WriteFile outPath (code result), Log (''Saved to '' @ outPath)], 0)))"

definition select_result :: "Env \<Rightarrow> Flags \<Rightarrow> string \<Rightarrow> effect list \<times> PlanAndCode" where
  \<comment> \<open>lines 175 to 177: the remote result when \<^verbatim>\<open>--ai\<close> is set and the adapter gives one,
      the offline result otherwise\<close>
  "select_result env flags prompt =
     (let (fetched, remote) = (if ai flags then maybeAIPlanAndCode env prompt else ([], None))
      in (fetched, case remote of None \<Rightarrow> makeOfflinePlanAndCode prompt | Some r \<Rightarrow> r))"

definition run :: "Env \<Rightarrow> Flags \<Rightarrow> string \<Rightarrow> Outcome" where
  \<comment> \<open>\<^verbatim>\<open>main\<close> from line 172 on, for the flags and the prompt of line 171\<close>
  "run env flags prompt =
     (if version flags then \<lparr>effects = [Log ''traycer-lite v0.1.0''], exitCode = 0\<rparr>
      else if help flags \<or> prompt = []
        then \<lparr>effects = [PrintHelp], exitCode = (if prompt = [] then 1 else 0)\<rparr>
      else
        (let (fetched, result) = select_result env flags prompt;
             (saved, status) = save env flags result
         in \<lparr>effects = fetched @ render flags result @ saved, exitCode = status\<rparr>))"

definition main :: "Env \<Rightarrow> string list \<Rightarrow> Outcome" where
  \<comment> \<open>\<open>argv\<close> is \<^verbatim>\<open>process.argv.slice(2)\<close>\<close>
  "main env argv = (case parseArgs argv of (flags, prompt) \<Rightarrow> run env flags prompt)"

text \<open>An environment for the concrete runs below: no API key, an empty directory.\<close>

definition example_env :: Env where
  "example_env =
     \<lparr>api_key = None, remote_reply = (\<lambda>key prompt. None),
      resolve = (\<lambda>path. ''/work/'' @ path), existsSync = (\<lambda>path. False),
      write_throws = (\<lambda>path. False)\<rparr>"

section \<open>The patterns of the name rules, as the specification words them\<close>

text \<open>
  The specification speaks of a prompt that contains \<^verbatim>\<open>function <identifier>\<close>,
  \<^verbatim>\<open>called <identifier>\<close> or \<^verbatim>\<open>named <identifier>\<close>. These two predicates say so without
  reference to the matcher: at position \<open>i\<close> of \<open>s\<close> stands the keyword, then white space,
  then the identifier \<open>m\<close>, and \<open>m\<close> ends there. They are compared with \<open>re_exec\<close> below.
\<close>

definition is_identifier :: "string \<Rightarrow> bool" where
  "is_identifier m = (m \<noteq> [] \<and> ident_start (hd m) \<and> list_all ident_char m)"

definition spec_pattern_at :: "string \<Rightarrow> string \<Rightarrow> nat \<Rightarrow> string \<Rightarrow> bool" where
  "spec_pattern_at kw s i m =
     (\<exists>ws rest. i \<le> length s \<and> drop i s = kw @ ws @ m @ rest \<and>
        ws \<noteq> [] \<and> list_all is_space ws \<and> is_identifier m \<and>
        (case rest of [] \<Rightarrow> True | c # _ \<Rightarrow> \<not> ident_char c))"

section \<open>Facts about the string functions and the regular expressions\<close>

lemma re_test_iff: "re_test alts s \<longleftrightarrow> (\<exists>k \<in> set alts. sublist k s)"
proof (induction s)
  case Nil
  show ?case by (simp add: startsWith_def list_ex_iff)
next
  case (Cons c cs)
  show ?case
    by (auto simp: Cons.IH startsWith_def list_ex_iff sublist_Cons_right)
qed

lemma re_test_single: "re_test [k] s \<longleftrightarrow> sublist k s"
  by (simp add: re_test_iff)

lemma sublist_toLowerCase:
  assumes "sublist k s" and "toLowerCase k = k"
  shows "sublist k (toLowerCase s)"
proof -
  have "sublist (map toLowerCase_char k) (map toLowerCase_char s)"
    using assms(1) by (rule map_mono_sublist)
  then show ?thesis
    using assms(2) by (simp add: toLowerCase_def)
qed

lemma lower_function: "toLowerCase ''function'' = ''function''"
  by (simp add: toLowerCase_def toLowerCase_char_def)

lemma ident_start_char: "ident_start c \<Longrightarrow> ident_char c"
  by (auto simp: ident_start_def ident_char_def)

lemma ident_start_not_space: "ident_start c \<Longrightarrow> \<not> is_space c"
  by (auto simp: ident_start_def is_space_def is_lower_def is_upper_def)

lemma match_kw_ident_sound:
  assumes "match_kw_ident kw s = Some m"
  shows "spec_pattern_at kw s 0 m"
proof -
  from assms have pre: "prefix kw s"
    by (simp add: match_kw_ident_def startsWith_def split: if_splits)
  define r where "r = drop (length kw) s"
  from pre have s: "s = kw @ r"
    by (auto simp: r_def prefix_def)
  from assms pre obtain c cs where
    dw: "dropWhile is_space r = c # cs" and tw: "takeWhile is_space r \<noteq> []"
    and c: "ident_start c" and m: "m = c # takeWhile ident_char cs"
    by (auto simp: match_kw_ident_def startsWith_def Let_def r_def
             split: if_splits list.splits)
  have r: "r = takeWhile is_space r @ m @ dropWhile ident_char cs"
  proof -
    have "r = takeWhile is_space r @ dropWhile is_space r" by simp
    also have "dropWhile is_space r = c # (takeWhile ident_char cs @ dropWhile ident_char cs)"
      using dw by simp
    finally show ?thesis using m by simp
  qed
  have sp: "list_all is_space (takeWhile is_space r)"
    by (simp add: list_all_iff) (meson set_takeWhileD)
  have idm: "is_identifier m"
    using c m by (auto simp: is_identifier_def list_all_iff ident_start_char dest: set_takeWhileD)
  have rest: "(case dropWhile ident_char cs of [] \<Rightarrow> True | c # _ \<Rightarrow> \<not> ident_char c)"
  proof (cases "dropWhile ident_char cs")
    case Nil
    show ?thesis unfolding Nil by simp
  next
    case (Cons a as)
    have "\<not> ident_char a"
      using hd_dropWhile [of ident_char cs] unfolding Cons by simp
    then show ?thesis unfolding Cons by simp
  qed
  show ?thesis
    unfolding spec_pattern_at_def
    using s r tw sp idm rest by (metis drop0 le0)
qed

lemma match_kw_ident_complete:
  assumes "spec_pattern_at kw s 0 m"
  shows "match_kw_ident kw s = Some m"
proof -
  from assms obtain ws rest where s: "s = kw @ ws @ m @ rest"
    and ws: "ws \<noteq> []" "list_all is_space ws" and idm: "is_identifier m"
    and rest: "(case rest of [] \<Rightarrow> True | c # _ \<Rightarrow> \<not> ident_char c)"
    by (auto simp: spec_pattern_at_def)
  from idm obtain c m' where m: "m = c # m'" and c: "ident_start c"
    and m': "list_all ident_char m'"
    by (cases m) (auto simp: is_identifier_def)
  have dw: "dropWhile is_space (ws @ c # m' @ rest) = c # m' @ rest"
    using ws(2) c by (simp add: list_all_iff dropWhile_append2 ident_start_not_space)
  have tw: "takeWhile is_space (ws @ c # m' @ rest) = ws"
    using ws(2) c by (simp add: list_all_iff takeWhile_append2 ident_start_not_space)
  have tk: "takeWhile ident_char (m' @ rest) = m'"
    using m' rest by (cases rest) (simp_all add: list_all_iff takeWhile_append2)
  show ?thesis
    using ws(1) c by (simp add: match_kw_ident_def startsWith_def Let_def s m dw tw tk)
qed

lemma match_kw_ident_iff: "match_kw_ident kw s = Some m \<longleftrightarrow> spec_pattern_at kw s 0 m"
  using match_kw_ident_sound match_kw_ident_complete by blast

lemma spec_pattern_at_drop:
  "spec_pattern_at kw s i m \<longleftrightarrow> i \<le> length s \<and> spec_pattern_at kw (drop i s) 0 m"
  by (auto simp: spec_pattern_at_def)

lemma re_exec_None_iff:
  "re_exec alts s = None \<longleftrightarrow> (\<forall>i \<le> length s. match_alts alts (drop i s) = None)"
proof (induction s)
  case Nil
  show ?case by simp
next
  case (Cons c cs)
  have "(\<forall>i \<le> length (c # cs). match_alts alts (drop i (c # cs)) = None) \<longleftrightarrow>
        match_alts alts (c # cs) = None \<and> (\<forall>i \<le> length cs. match_alts alts (drop i cs) = None)"
    (is "?L \<longleftrightarrow> ?R")
  proof
    assume L: ?L
    have "match_alts alts (c # cs) = None" using L [rule_format, of 0] by simp
    moreover have "\<forall>i \<le> length cs. match_alts alts (drop i cs) = None"
    proof (intro allI impI)
      fix i assume "i \<le> length cs"
      then show "match_alts alts (drop i cs) = None"
        using L [rule_format, of "Suc i"] by simp
    qed
    ultimately show ?R by simp
  next
    assume R: ?R
    show ?L
    proof (intro allI impI)
      fix i assume "i \<le> length (c # cs)"
      then show "match_alts alts (drop i (c # cs)) = None"
        using R by (cases i) simp_all
    qed
  qed
  then show ?case
    using Cons.IH by (simp split: option.splits)
qed

lemma re_exec_leftmost:
  assumes "i \<le> length s" and "match_alts alts (drop i s) = Some m"
    and "\<forall>j<i. match_alts alts (drop j s) = None"
  shows "re_exec alts s = Some m"
  using assms
proof (induction s arbitrary: i)
  case Nil
  then show ?case by simp
next
  case (Cons c cs)
  show ?case
  proof (cases i)
    case 0
    with Cons.prems show ?thesis by simp
  next
    case (Suc k)
    have here: "match_alts alts (c # cs) = None"
      using Cons.prems(3) [rule_format, of 0] Suc by simp
    have "re_exec alts cs = Some m"
    proof (rule Cons.IH [of k])
      show "k \<le> length cs" using Cons.prems(1) Suc by simp
      show "match_alts alts (drop k cs) = Some m" using Cons.prems(2) Suc by simp
      show "\<forall>j<k. match_alts alts (drop j cs) = None"
      proof (intro allI impI)
        fix j assume "j < k"
        then show "match_alts alts (drop j cs) = None"
          using Cons.prems(3) [rule_format, of "Suc j"] Suc by simp
      qed
    qed
    with here show ?thesis by simp
  qed
qed

lemma match_alts_single: "match_alts [kw] s = match_kw_ident kw s"
  by (simp split: option.splits)

lemma called_named_exclusive:
  "match_kw_ident ''called'' s = Some m \<Longrightarrow> match_kw_ident ''named'' s = None"
  by (auto simp: match_kw_ident_def startsWith_def prefix_def split: if_splits)

lemma match_alts_called_named:
  "match_alts [''called'', ''named''] s = Some m \<longleftrightarrow>
     spec_pattern_at ''called'' s 0 m \<or> spec_pattern_at ''named'' s 0 m"
proof (cases "match_kw_ident ''called'' s")
  case None
  then show ?thesis
    using match_kw_ident_iff [of "''called''" s m] match_kw_ident_iff [of "''named''" s m]
    by (auto split: option.splits)
next
  case (Some x)
  then show ?thesis
    using match_kw_ident_iff [of "''called''" s m] match_kw_ident_iff [of "''named''" s m]
      called_named_exclusive [OF Some]
    by (auto split: option.splits)
qed

lemma re_exec_function_leftmost:
  assumes "spec_pattern_at ''function'' p i m"
    and "\<forall>j<i. \<forall>m'. \<not> spec_pattern_at ''function'' p j m'"
  shows "re_exec [''function''] p = Some m"
proof (rule re_exec_leftmost [of i])
  show le: "i \<le> length p" using assms(1) by (simp add: spec_pattern_at_def)
  show "match_alts [''function''] (drop i p) = Some m"
    using assms(1) spec_pattern_at_drop [of "''function''" p i m]
    by (simp add: match_alts_single match_kw_ident_iff del: match_alts.simps)
  show "\<forall>j<i. match_alts [''function''] (drop j p) = None"
  proof (intro allI impI)
    fix j assume j: "j < i"
    show "match_alts [''function''] (drop j p) = None"
    proof (cases "match_kw_ident ''function'' (drop j p)")
      case None
      then show ?thesis by (simp add: match_alts_single del: match_alts.simps)
    next
      case (Some m')
      then have "spec_pattern_at ''function'' p j m'"
        using j le spec_pattern_at_drop [of "''function''" p j m']
        by (simp add: match_kw_ident_iff)
      with assms(2) j show ?thesis by blast
    qed
  qed
qed

lemma re_exec_function_none:
  assumes "\<forall>j m'. \<not> spec_pattern_at ''function'' p j m'"
  shows "re_exec [''function''] p = None"
  unfolding re_exec_None_iff
proof (intro allI impI)
  fix i assume i: "i \<le> length p"
  show "match_alts [''function''] (drop i p) = None"
  proof (cases "match_kw_ident ''function'' (drop i p)")
    case None
    then show ?thesis by (simp add: match_alts_single del: match_alts.simps)
  next
    case (Some m')
    then have "spec_pattern_at ''function'' p i m'"
      using i spec_pattern_at_drop [of "''function''" p i m']
      by (simp add: match_kw_ident_iff)
    with assms show ?thesis by blast
  qed
qed

lemma re_exec_named_leftmost:
  assumes "spec_pattern_at ''called'' p i m \<or> spec_pattern_at ''named'' p i m"
    and "\<forall>j<i. \<forall>m'. \<not> spec_pattern_at ''called'' p j m' \<and> \<not> spec_pattern_at ''named'' p j m'"
  shows "re_exec [''called'', ''named''] p = Some m"
proof (rule re_exec_leftmost [of i])
  show le: "i \<le> length p" using assms(1) by (auto simp: spec_pattern_at_def)
  show "match_alts [''called'', ''named''] (drop i p) = Some m"
    using assms(1) spec_pattern_at_drop [of "''called''" p i m]
      spec_pattern_at_drop [of "''named''" p i m]
    by (auto simp: match_alts_called_named simp del: match_alts.simps)
  show "\<forall>j<i. match_alts [''called'', ''named''] (drop j p) = None"
  proof (intro allI impI)
    fix j assume j: "j < i"
    show "match_alts [''called'', ''named''] (drop j p) = None"
    proof (cases "match_alts [''called'', ''named''] (drop j p)")
      case None
      then show ?thesis .
    next
      case (Some m')
      then have "spec_pattern_at ''called'' p j m' \<or> spec_pattern_at ''named'' p j m'"
        using j le spec_pattern_at_drop [of "''called''" p j m']
          spec_pattern_at_drop [of "''named''" p j m']
        by (simp add: match_alts_called_named del: match_alts.simps)
      with assms(2) j show ?thesis by blast
    qed
  qed
qed

lemma re_exec_named_none:
  assumes "\<forall>j m'. \<not> spec_pattern_at ''called'' p j m' \<and> \<not> spec_pattern_at ''named'' p j m'"
  shows "re_exec [''called'', ''named''] p = None"
  unfolding re_exec_None_iff
proof (intro allI impI)
  fix i assume i: "i \<le> length p"
  show "match_alts [''called'', ''named''] (drop i p) = None"
  proof (cases "match_alts [''called'', ''named''] (drop i p)")
    case None
    then show ?thesis .
  next
    case (Some m')
    then have "spec_pattern_at ''called'' p i m' \<or> spec_pattern_at ''named'' p i m'"
      using i spec_pattern_at_drop [of "''called''" p i m']
        spec_pattern_at_drop [of "''named''" p i m']
      by (simp add: match_alts_called_named del: match_alts.simps)
    with assms show ?thesis by blast
  qed
qed

lemma spec_pattern_at_code:
  "spec_pattern_at kw s i m \<longleftrightarrow> i \<le> length s \<and> match_kw_ident kw (drop i s) = Some m"
  using spec_pattern_at_drop [of kw s i m] by (simp add: match_kw_ident_iff)

lemma re_exec_Some_D:
  "re_exec alts s = Some m \<Longrightarrow>
   \<exists>i \<le> length s. match_alts alts (drop i s) = Some m \<and>
      (\<forall>j<i. match_alts alts (drop j s) = None)"
proof (induction s)
  case Nil
  then show ?case by simp
next
  case (Cons c cs)
  show ?case
  proof (cases "match_alts alts (c # cs)")
    case (Some x)
    with Cons.prems have "match_alts alts (drop 0 (c # cs)) = Some m" by simp
    then show ?thesis by blast
  next
    case None
    with Cons.prems have "re_exec alts cs = Some m" by simp
    then obtain i where i: "i \<le> length cs" "match_alts alts (drop i cs) = Some m"
      "\<forall>j<i. match_alts alts (drop j cs) = None"
      using Cons.IH by blast
    have "\<forall>j<Suc i. match_alts alts (drop j (c # cs)) = None"
    proof (intro allI impI)
      fix j assume "j < Suc i"
      then show "match_alts alts (drop j (c # cs)) = None"
        using None i(3) by (cases j) simp_all
    qed
    moreover have "Suc i \<le> length (c # cs)" using i(1) by simp
    moreover have "match_alts alts (drop (Suc i) (c # cs)) = Some m" using i(2) by simp
    ultimately show ?thesis by blast
  qed
qed

lemma no_function_pattern:
  assumes "re_exec [''function''] p = None"
  shows "\<forall>j m'. \<not> spec_pattern_at ''function'' p j m'"
  using assms unfolding re_exec_None_iff spec_pattern_at_code
  by (auto simp: match_alts_single simp del: match_alts.simps)

lemma no_named_pattern:
  assumes "re_exec [''called'', ''named''] p = None"
  shows "\<forall>j m'. \<not> spec_pattern_at ''called'' p j m' \<and> \<not> spec_pattern_at ''named'' p j m'"
proof (intro allI)
  fix j m'
  show "\<not> spec_pattern_at ''called'' p j m' \<and> \<not> spec_pattern_at ''named'' p j m'"
  proof (cases "j \<le> length p")
    case True
    then have "match_alts [''called'', ''named''] (drop j p) = None"
      using assms unfolding re_exec_None_iff by blast
    then show ?thesis
      using match_alts_called_named [of "drop j p" m']
        spec_pattern_at_drop [of "''called''" p j m'] spec_pattern_at_drop [of "''named''" p j m']
      by simp
  next
    case False
    then show ?thesis by (simp add: spec_pattern_at_def)
  qed
qed

lemma leftmost_named_pattern:
  assumes "re_exec [''called'', ''named''] p = Some m"
  shows "\<exists>i. (spec_pattern_at ''called'' p i m \<or> spec_pattern_at ''named'' p i m) \<and>
           (\<forall>j<i. \<forall>m'. \<not> spec_pattern_at ''called'' p j m' \<and>
                         \<not> spec_pattern_at ''named'' p j m')"
proof -
  from re_exec_Some_D [OF assms] obtain i where i: "i \<le> length p"
    "match_alts [''called'', ''named''] (drop i p) = Some m"
    "\<forall>j<i. match_alts [''called'', ''named''] (drop j p) = None"
    by blast
  have here: "spec_pattern_at ''called'' p i m \<or> spec_pattern_at ''named'' p i m"
    using i(1,2) match_alts_called_named [of "drop i p" m]
      spec_pattern_at_drop [of "''called''" p i m] spec_pattern_at_drop [of "''named''" p i m]
    by simp
  have before: "\<forall>j<i. \<forall>m'. \<not> spec_pattern_at ''called'' p j m' \<and>
                         \<not> spec_pattern_at ''named'' p j m'"
  proof (intro allI impI)
    fix j m' assume "j < i"
    then have "match_alts [''called'', ''named''] (drop j p) = None" using i(3) by blast
    then show "\<not> spec_pattern_at ''called'' p j m' \<and> \<not> spec_pattern_at ''named'' p j m'"
      using match_alts_called_named [of "drop j p" m']
        spec_pattern_at_drop [of "''called''" p j m'] spec_pattern_at_drop [of "''named''" p j m']
      by simp
  qed
  from here before show ?thesis by blast
qed

lemma leftmost_function_pattern:
  assumes "re_exec [''function''] p = Some m"
  shows "\<exists>i. spec_pattern_at ''function'' p i m \<and>
           (\<forall>j<i. \<forall>m'. \<not> spec_pattern_at ''function'' p j m')"
proof -
  from re_exec_Some_D [OF assms] obtain i where i: "i \<le> length p"
    "match_alts [''function''] (drop i p) = Some m"
    "\<forall>j<i. match_alts [''function''] (drop j p) = None"
    by blast
  have here: "spec_pattern_at ''function'' p i m"
    using i(1,2) unfolding spec_pattern_at_code
    by (simp add: match_alts_single del: match_alts.simps)
  have before: "\<forall>j<i. \<forall>m'. \<not> spec_pattern_at ''function'' p j m'"
  proof (intro allI impI)
    fix j m' assume "j < i"
    then have "match_alts [''function''] (drop j p) = None" using i(3) by blast
    then show "\<not> spec_pattern_at ''function'' p j m'"
      unfolding spec_pattern_at_code
      by (simp add: match_alts_single del: match_alts.simps)
  qed
  from here before show ?thesis by blast
qed

section \<open>The example of the README\<close>

text \<open>
  Claim C1. For the prompt \<^verbatim>\<open>write a function to check prime numbers\<close> the offline path
  gives a plan of 8 steps whose first step restates the prompt, and the code of the
  primality template. The claim and the README name the generated function
  \<^verbatim>\<open>isPrime\<close>; the code names it \<^verbatim>\<open>to\<close>, because the first rule of \<^verbatim>\<open>guessName\<close>
  matches \<^verbatim>\<open>function to\<close> in the prompt before the keyword \<^verbatim>\<open>prime\<close> is looked at.
  The theorem evaluates the code at this prompt.
\<close>

theorem readme_example_is_named_to:
  "guessType ''write a function to check prime numbers'' = Function
   \<and> re_exec [''function''] ''write a function to check prime numbers'' = Some ''to''
   \<and> guessName ''write a function to check prime numbers'' Function = ''to''
   \<and> hd (plan (makeOfflinePlanAndCode ''write a function to check prime numbers''))
       = ''Restate goal: write a function to check prime numbers''
   \<and> length (plan (makeOfflinePlanAndCode ''write a function to check prime numbers'')) = 8
   \<and> code (makeOfflinePlanAndCode ''write a function to check prime numbers'') =
       ''export function to(n: number): boolean {\<newline>'' @
       ''  if (!Number.isInteger(n) || n < 2) return false;\<newline>'' @
       ''  for (let i = 2; i * i <= n; i++) {\<newline>'' @
       ''    if (n % i === 0) return false;\<newline>'' @
       ''  }\<newline>'' @
       ''  return true;\<newline>'' @
       ''}\<newline>''
   \<and> code (makeOfflinePlanAndCode ''write a function to check prime numbers'')
       \<noteq> tpl_prime ''isPrime''"
  by code_simp

section \<open>The classifier\<close>

text \<open>
  Claim C2. \<^verbatim>\<open>guessType\<close> returns one artifact type by first match on the lowercased
  prompt: the function keywords (\<^verbatim>\<open>function\<close>, or one of check, compute, calculate,
  determine, find, prime, factorial, fibonacci, reverse) come first, then the component
  keywords, then the api keywords, then the script keywords, and the default is function.
  In particular a prompt that contains both \<^verbatim>\<open>function\<close> and \<^verbatim>\<open>react\<close> is a function.
  Containment is \<open>sublist\<close>: \<open>sublist k s\<close> holds when \<open>s = ps @ k @ ss\<close> for some \<open>ps\<close>, \<open>ss\<close>.
\<close>

theorem guessType_first_match_wins:
  "guessType prompt =
     (if sublist ''function'' (toLowerCase prompt) \<or>
         (\<exists>k \<in> set [''check'', ''compute'', ''calculate'', ''determine'', ''find'', ''prime'',
                      ''factorial'', ''fibonacci'', ''reverse'']. sublist k (toLowerCase prompt))
      then Function
      else if \<exists>k \<in> set [''react'', ''component'', ''jsx'', ''tsx'']. sublist k (toLowerCase prompt)
      then Component
      else if \<exists>k \<in> set [''endpoint'', ''api'', ''http'', ''express'', ''fetch''].
                sublist k (toLowerCase prompt)
      then Api
      else if \<exists>k \<in> set [''script'', ''cli'', ''command'', ''utility''].
                sublist k (toLowerCase prompt)
      then Script
      else Function)
   \<and> (sublist ''function'' prompt \<and> sublist ''react'' prompt \<longrightarrow> guessType prompt = Function)"
proof
  show "guessType prompt =
     (if sublist ''function'' (toLowerCase prompt) \<or>
         (\<exists>k \<in> set [''check'', ''compute'', ''calculate'', ''determine'', ''find'', ''prime'',
                      ''factorial'', ''fibonacci'', ''reverse'']. sublist k (toLowerCase prompt))
      then Function
      else if \<exists>k \<in> set [''react'', ''component'', ''jsx'', ''tsx'']. sublist k (toLowerCase prompt)
      then Component
      else if \<exists>k \<in> set [''endpoint'', ''api'', ''http'', ''express'', ''fetch''].
                sublist k (toLowerCase prompt)
      then Api
      else if \<exists>k \<in> set [''script'', ''cli'', ''command'', ''utility''].
                sublist k (toLowerCase prompt)
      then Script
      else Function)"
    unfolding guessType_def Let_def re_test_iff by simp
next
  show "sublist ''function'' prompt \<and> sublist ''react'' prompt \<longrightarrow> guessType prompt = Function"
  proof
    assume "sublist ''function'' prompt \<and> sublist ''react'' prompt"
    then have "sublist ''function'' (toLowerCase prompt)"
      using sublist_toLowerCase lower_function by blast
    then show "guessType prompt = Function"
      by (simp add: guessType_def re_test_single)
  qed
qed

theorem guessType_first_match_wins_witness:
  "sublist ''function'' ''a react function'' \<and> sublist ''react'' ''a react function''
   \<and> guessType ''a react function'' = Function"
proof -
  have a: "sublist ''function'' ''a react function''" by code_simp
  have b: "sublist ''react'' ''a react function''" by code_simp
  from guessType_first_match_wins [of "''a react function''", THEN conjunct2] a b
  show ?thesis by blast
qed

section \<open>The plan generator\<close>

text \<open>
  Claim C4. For every prompt, artifact type and name, \<^verbatim>\<open>makePlan\<close> returns exactly 8 steps
  in a fixed order: step 1 is \<^verbatim>\<open>Restate goal: \<close> followed by the prompt, steps 2, 3 and 5 to
  8 are fixed strings, and step 4 is the one step that belongs to the artifact type.
\<close>

theorem makePlan_eight_steps:
  "makePlan prompt type name =
     [''Restate goal: '' @ prompt,
      ''Identify inputs and outputs.'',
      ''List edge cases and constraints.'',
      (case type of
         Function \<Rightarrow> ''Design function signature and return type.''
       | Component \<Rightarrow> ''Sketch props and state; plan rendering.''
       | Api \<Rightarrow> ''Define route, method, request/response schema, and errors.''
       | Script \<Rightarrow> ''Define CLI flags, usage, and I/O.''),
      ''Outline algorithm in small steps.'',
      ''Write code with clear comments.'',
      ''Add basic tests or examples.'',
      ''Validate on edge cases.'']
   \<and> length (makePlan prompt type name) = 8"
  by (cases type) (simp_all add: makePlan_def)

section \<open>The name inferencer\<close>

text \<open>
  Claim C3. When the prompt contains the pattern \<^verbatim>\<open>function <identifier>\<close>, \<^verbatim>\<open>guessName\<close>
  returns the identifier of its leftmost occurrence, whatever keyword the prompt also
  contains and whatever the camelCase fallback would be. When it contains no such pattern
  but \<^verbatim>\<open>called <identifier>\<close> or \<^verbatim>\<open>named <identifier>\<close>, \<^verbatim>\<open>guessName\<close> returns the
  identifier of the leftmost occurrence of those. When it contains neither, the keyword
  overrides are tried on the lowercased prompt in the order reverse, fibonacci or fib,
  factorial, debounce, throttle, prime, and only when none applies the result is the
  camelCase of the prompt cut to 24 characters, or \<^verbatim>\<open>MyComponent\<close> or \<^verbatim>\<open>doWork\<close> when
  that is empty.
\<close>

theorem guessName_precedence:
  "(spec_pattern_at ''function'' prompt i m \<and>
    (\<forall>j<i. \<forall>m'. \<not> spec_pattern_at ''function'' prompt j m')
      \<longrightarrow> guessName prompt type = m)
   \<and> ((\<forall>j m'. \<not> spec_pattern_at ''function'' prompt j m') \<and>
       (spec_pattern_at ''called'' prompt i m \<or> spec_pattern_at ''named'' prompt i m) \<and>
       (\<forall>j<i. \<forall>m'. \<not> spec_pattern_at ''called'' prompt j m' \<and>
                     \<not> spec_pattern_at ''named'' prompt j m')
      \<longrightarrow> guessName prompt type = m)
   \<and> ((\<forall>j m'. \<not> spec_pattern_at ''function'' prompt j m') \<and>
       (\<forall>j m'. \<not> spec_pattern_at ''called'' prompt j m' \<and>
                \<not> spec_pattern_at ''named'' prompt j m')
      \<longrightarrow> guessName prompt type =
           (if sublist ''reverse'' (toLowerCase prompt) then ''reverseString''
            else if sublist ''fibonacci'' (toLowerCase prompt) \<or>
                    sublist ''fib'' (toLowerCase prompt) then ''fibonacci''
            else if sublist ''factorial'' (toLowerCase prompt) then ''factorial''
            else if sublist ''debounce'' (toLowerCase prompt) then ''debounce''
            else if sublist ''throttle'' (toLowerCase prompt) then ''throttle''
            else if sublist ''prime'' (toLowerCase prompt) then ''isPrime''
            else if take 24 (toCamelCase prompt) \<noteq> [] then take 24 (toCamelCase prompt)
            else if type = Component then ''MyComponent''
            else ''doWork''))
   \<and> ((\<exists>i m. spec_pattern_at ''function'' prompt i m) \<longrightarrow>
       (\<exists>i. spec_pattern_at ''function'' prompt i (guessName prompt type)))
   \<and> ((\<forall>j m'. \<not> spec_pattern_at ''function'' prompt j m') \<and>
       (\<exists>i m. spec_pattern_at ''called'' prompt i m \<or> spec_pattern_at ''named'' prompt i m) \<longrightarrow>
       (\<exists>i. spec_pattern_at ''called'' prompt i (guessName prompt type) \<or>
            spec_pattern_at ''named'' prompt i (guessName prompt type)))"
proof (intro conjI impI)
  assume "spec_pattern_at ''function'' prompt i m \<and>
    (\<forall>j<i. \<forall>m'. \<not> spec_pattern_at ''function'' prompt j m')"
  then have "re_exec [''function''] prompt = Some m"
    using re_exec_function_leftmost by blast
  then show "guessName prompt type = m"
    by (simp add: guessName_def)
next
  assume a: "(\<forall>j m'. \<not> spec_pattern_at ''function'' prompt j m') \<and>
       (spec_pattern_at ''called'' prompt i m \<or> spec_pattern_at ''named'' prompt i m) \<and>
       (\<forall>j<i. \<forall>m'. \<not> spec_pattern_at ''called'' prompt j m' \<and>
                     \<not> spec_pattern_at ''named'' prompt j m')"
  then have "re_exec [''function''] prompt = None"
    using re_exec_function_none by blast
  moreover from a have "re_exec [''called'', ''named''] prompt = Some m"
    using re_exec_named_leftmost [of prompt i m] by blast
  ultimately show "guessName prompt type = m"
    by (simp add: guessName_def)
next
  assume a: "(\<forall>j m'. \<not> spec_pattern_at ''function'' prompt j m') \<and>
       (\<forall>j m'. \<not> spec_pattern_at ''called'' prompt j m' \<and>
                \<not> spec_pattern_at ''named'' prompt j m')"
  then have "re_exec [''function''] prompt = None"
    using re_exec_function_none by blast
  moreover from a have "re_exec [''called'', ''named''] prompt = None"
    using re_exec_named_none [of prompt] by blast
  ultimately show "guessName prompt type =
           (if sublist ''reverse'' (toLowerCase prompt) then ''reverseString''
            else if sublist ''fibonacci'' (toLowerCase prompt) \<or>
                    sublist ''fib'' (toLowerCase prompt) then ''fibonacci''
            else if sublist ''factorial'' (toLowerCase prompt) then ''factorial''
            else if sublist ''debounce'' (toLowerCase prompt) then ''debounce''
            else if sublist ''throttle'' (toLowerCase prompt) then ''throttle''
            else if sublist ''prime'' (toLowerCase prompt) then ''isPrime''
            else if take 24 (toCamelCase prompt) \<noteq> [] then take 24 (toCamelCase prompt)
            else if type = Component then ''MyComponent''
            else ''doWork'')"
    by (simp add: guessName_def Let_def re_test_iff)
next
  assume a: "\<exists>i m. spec_pattern_at ''function'' prompt i m"
  show "\<exists>i. spec_pattern_at ''function'' prompt i (guessName prompt type)"
  proof (cases "re_exec [''function''] prompt")
    case None
    with a show ?thesis using no_function_pattern by blast
  next
    case (Some m0)
    then have "guessName prompt type = m0" by (simp add: guessName_def)
    with leftmost_function_pattern [OF Some] show ?thesis by blast
  qed
next
  assume a: "(\<forall>j m'. \<not> spec_pattern_at ''function'' prompt j m') \<and>
       (\<exists>i m. spec_pattern_at ''called'' prompt i m \<or> spec_pattern_at ''named'' prompt i m)"
  then have f: "re_exec [''function''] prompt = None"
    using re_exec_function_none by blast
  show "\<exists>i. spec_pattern_at ''called'' prompt i (guessName prompt type) \<or>
            spec_pattern_at ''named'' prompt i (guessName prompt type)"
  proof (cases "re_exec [''called'', ''named''] prompt")
    case None
    with a show ?thesis using no_named_pattern by blast
  next
    case (Some m0)
    with f have "guessName prompt type = m0" by (simp add: guessName_def)
    with leftmost_named_pattern [OF Some] show ?thesis by blast
  qed
qed

theorem guessName_precedence_witness:
  "spec_pattern_at ''function'' ''a function foo to reverse, called bar'' 2 ''foo''
   \<and> sublist ''reverse'' (toLowerCase ''a function foo to reverse, called bar'')
   \<and> guessName ''a function foo to reverse, called bar'' Function = ''foo''
   \<and> sublist ''reverse'' (toLowerCase ''Reverse helper named flip'')
   \<and> guessName ''Reverse helper named flip'' Function = ''flip''
   \<and> guessName ''is 97 a prime or a fib number'' Function = ''fibonacci''
   \<and> guessName ''sort a list'' Function = ''sortAList''"
proof -
  let ?P = "''a function foo to reverse, called bar''"
  have here: "spec_pattern_at ''function'' ?P 2 ''foo''"
    unfolding spec_pattern_at_code by code_simp
  have n0: "match_kw_ident ''function'' (drop 0 ?P) = None" by code_simp
  have n1: "match_kw_ident ''function'' (drop 1 ?P) = None" by code_simp
  have before: "\<forall>j<2. \<forall>m'. \<not> spec_pattern_at ''function'' ?P j m'"
  proof (intro allI impI)
    fix j :: nat and m'
    assume "j < 2"
    then have "j = 0 \<or> j = 1" by linarith
    then show "\<not> spec_pattern_at ''function'' ?P j m'"
      unfolding spec_pattern_at_code using n0 n1 by auto
  qed
  have kw: "sublist ''reverse'' (toLowerCase ?P)" by code_simp
  from guessName_precedence [of ?P 2 "''foo''" Function, THEN conjunct1] here before
  have 1: "guessName ?P Function = ''foo''" by blast

  let ?Q = "''Reverse helper named flip''"
  have qf: "re_exec [''function''] ?Q = None" by code_simp
  have qn: "re_exec [''called'', ''named''] ?Q = Some ''flip''" by code_simp
  have qk: "sublist ''reverse'' (toLowerCase ?Q)" by code_simp
  from leftmost_named_pattern [OF qn] obtain i where
    i: "spec_pattern_at ''called'' ?Q i ''flip'' \<or> spec_pattern_at ''named'' ?Q i ''flip''"
       "\<forall>j<i. \<forall>m'. \<not> spec_pattern_at ''called'' ?Q j m' \<and> \<not> spec_pattern_at ''named'' ?Q j m'"
    by blast
  from guessName_precedence [of ?Q i "''flip''" Function, THEN conjunct2, THEN conjunct1]
    no_function_pattern [OF qf] i
  have 2: "guessName ?Q Function = ''flip''" by blast

  let ?R = "''is 97 a prime or a fib number''"
  have rf: "re_exec [''function''] ?R = None" by code_simp
  have rn: "re_exec [''called'', ''named''] ?R = None" by code_simp
  have rk: "\<not> sublist ''reverse'' (toLowerCase ?R) \<and> sublist ''fib'' (toLowerCase ?R)"
    by code_simp
  from guessName_precedence [of ?R 0 "[]" Function, THEN conjunct2, THEN conjunct2, THEN conjunct1]
    no_function_pattern [OF rf] no_named_pattern [OF rn]
  have "guessName ?R Function =
           (if sublist ''reverse'' (toLowerCase ?R) then ''reverseString''
            else if sublist ''fibonacci'' (toLowerCase ?R) \<or>
                    sublist ''fib'' (toLowerCase ?R) then ''fibonacci''
            else if sublist ''factorial'' (toLowerCase ?R) then ''factorial''
            else if sublist ''debounce'' (toLowerCase ?R) then ''debounce''
            else if sublist ''throttle'' (toLowerCase ?R) then ''throttle''
            else if sublist ''prime'' (toLowerCase ?R) then ''isPrime''
            else if take 24 (toCamelCase ?R) \<noteq> [] then take 24 (toCamelCase ?R)
            else if Function = Component then ''MyComponent''
            else ''doWork'')"
    by blast
  with rk have 3: "guessName ?R Function = ''fibonacci''" by simp

  let ?S = "''sort a list''"
  have sf: "re_exec [''function''] ?S = None" by code_simp
  have sn: "re_exec [''called'', ''named''] ?S = None" by code_simp
  have sk: "\<not> sublist ''reverse'' (toLowerCase ?S) \<and> \<not> sublist ''fibonacci'' (toLowerCase ?S)
      \<and> \<not> sublist ''fib'' (toLowerCase ?S) \<and> \<not> sublist ''factorial'' (toLowerCase ?S)
      \<and> \<not> sublist ''debounce'' (toLowerCase ?S) \<and> \<not> sublist ''throttle'' (toLowerCase ?S)
      \<and> \<not> sublist ''prime'' (toLowerCase ?S)
      \<and> take 24 (toCamelCase ?S) = ''sortAList''"
    by code_simp
  from guessName_precedence [of ?S 0 "[]" Function, THEN conjunct2, THEN conjunct2, THEN conjunct1]
    no_function_pattern [OF sf] no_named_pattern [OF sn]
  have "guessName ?S Function =
           (if sublist ''reverse'' (toLowerCase ?S) then ''reverseString''
            else if sublist ''fibonacci'' (toLowerCase ?S) \<or>
                    sublist ''fib'' (toLowerCase ?S) then ''fibonacci''
            else if sublist ''factorial'' (toLowerCase ?S) then ''factorial''
            else if sublist ''debounce'' (toLowerCase ?S) then ''debounce''
            else if sublist ''throttle'' (toLowerCase ?S) then ''throttle''
            else if sublist ''prime'' (toLowerCase ?S) then ''isPrime''
            else if take 24 (toCamelCase ?S) \<noteq> [] then take 24 (toCamelCase ?S)
            else if Function = Component then ''MyComponent''
            else ''doWork'')"
    by blast
  with sk have 4: "guessName ?S Function = ''sortAList''" by simp
  from here kw 1 qk 2 3 4 show ?thesis by blast
qed

section \<open>The function templates\<close>

lemma tpl_reverse_distinct:
  "tpl_reverse name \<noteq> tpl_prime name"
  "tpl_reverse name \<noteq> tpl_fibonacci name"
  "tpl_reverse name \<noteq> tpl_factorial name"
  "tpl_reverse name \<noteq> tpl_debounce name"
  "tpl_reverse name \<noteq> tpl_stub name"
  by (simp_all add: tpl_reverse_def tpl_prime_def tpl_fibonacci_def tpl_factorial_def
        tpl_debounce_def tpl_stub_def)

text \<open>
  Claim C5. \<^verbatim>\<open>codeTemplateFunction\<close> tests the lowercased prompt for the keywords prime,
  fibonacci or fib, factorial, reverse together with string, debounce, in this order, and
  the first match selects the template. The reversal template is selected only when the
  lowercased prompt contains both \<^verbatim>\<open>reverse\<close> and \<^verbatim>\<open>string\<close>. When no keyword matches, the
  result is the stub that throws \<^verbatim>\<open>Not implemented\<close>. For a prompt classified as function,
  the code of the offline path is this template, for the inferred name.
\<close>

theorem codeTemplateFunction_priority:
  "codeTemplateFunction name prompt =
     (if sublist ''prime'' (toLowerCase prompt) then tpl_prime name
      else if sublist ''fibonacci'' (toLowerCase prompt) \<or> sublist ''fib'' (toLowerCase prompt)
        then tpl_fibonacci name
      else if sublist ''factorial'' (toLowerCase prompt) then tpl_factorial name
      else if sublist ''reverse'' (toLowerCase prompt) \<and> sublist ''string'' (toLowerCase prompt)
        then tpl_reverse name
      else if sublist ''debounce'' (toLowerCase prompt) then tpl_debounce name
      else tpl_stub name)
   \<and> (codeTemplateFunction name prompt = tpl_reverse name \<longrightarrow>
        sublist ''reverse'' (toLowerCase prompt) \<and> sublist ''string'' (toLowerCase prompt))
   \<and> (\<not> sublist ''prime'' (toLowerCase prompt) \<and> \<not> sublist ''fib'' (toLowerCase prompt) \<and>
        \<not> sublist ''factorial'' (toLowerCase prompt) \<and>
        \<not> (sublist ''reverse'' (toLowerCase prompt) \<and> sublist ''string'' (toLowerCase prompt)) \<and>
        \<not> sublist ''debounce'' (toLowerCase prompt) \<longrightarrow>
        codeTemplateFunction name prompt =
          ''export function '' @ name @ ''(/* params */): any {\<newline>'' @
          ''  throw new Error('Not implemented');\<newline>'' @
          ''}\<newline>'')
   \<and> (guessType prompt = Function \<longrightarrow>
        code (makeOfflinePlanAndCode prompt) =
          codeTemplateFunction (guessName prompt Function) prompt)"
proof -
  have cascade: "codeTemplateFunction name prompt =
     (if sublist ''prime'' (toLowerCase prompt) then tpl_prime name
      else if sublist ''fibonacci'' (toLowerCase prompt) \<or> sublist ''fib'' (toLowerCase prompt)
        then tpl_fibonacci name
      else if sublist ''factorial'' (toLowerCase prompt) then tpl_factorial name
      else if sublist ''reverse'' (toLowerCase prompt) \<and> sublist ''string'' (toLowerCase prompt)
        then tpl_reverse name
      else if sublist ''debounce'' (toLowerCase prompt) then tpl_debounce name
      else tpl_stub name)"
    unfolding codeTemplateFunction_def Let_def re_test_iff by simp
  have only: "codeTemplateFunction name prompt = tpl_reverse name \<longrightarrow>
        sublist ''reverse'' (toLowerCase prompt) \<and> sublist ''string'' (toLowerCase prompt)"
    unfolding cascade using tpl_reverse_distinct [of name]
    by (simp split: if_splits)
  have fib: "sublist ''fibonacci'' (toLowerCase prompt) \<Longrightarrow> sublist ''fib'' (toLowerCase prompt)"
  proof -
    assume "sublist ''fibonacci'' (toLowerCase prompt)"
    moreover have "sublist ''fib'' ''fibonacci''" by code_simp
    ultimately show ?thesis using sublist_order.order_trans by blast
  qed
  have stub: "\<not> sublist ''prime'' (toLowerCase prompt) \<and> \<not> sublist ''fib'' (toLowerCase prompt) \<and>
        \<not> sublist ''factorial'' (toLowerCase prompt) \<and>
        \<not> (sublist ''reverse'' (toLowerCase prompt) \<and> sublist ''string'' (toLowerCase prompt)) \<and>
        \<not> sublist ''debounce'' (toLowerCase prompt) \<longrightarrow>
        codeTemplateFunction name prompt =
          ''export function '' @ name @ ''(/* params */): any {\<newline>'' @
          ''  throw new Error('Not implemented');\<newline>'' @
          ''}\<newline>''"
    unfolding cascade using fib by (auto simp: tpl_stub_def)
  have off: "guessType prompt = Function \<longrightarrow>
        code (makeOfflinePlanAndCode prompt) =
          codeTemplateFunction (guessName prompt Function) prompt"
    by (simp add: makeOfflinePlanAndCode_def Let_def)
  from cascade only stub off show ?thesis by blast
qed

theorem codeTemplateFunction_priority_witness:
  "codeTemplateFunction ''reverseString'' ''Reverse a String'' = tpl_reverse ''reverseString''
   \<and> sublist ''reverse'' (toLowerCase ''Reverse a String'')
   \<and> sublist ''string'' (toLowerCase ''Reverse a String'')
   \<and> guessType ''Reverse a String'' = Function
   \<and> code (makeOfflinePlanAndCode ''Reverse a String'') =
       codeTemplateFunction (guessName ''Reverse a String'' Function) ''Reverse a String''
   \<and> \<not> sublist ''prime'' (toLowerCase ''sort a list'')
   \<and> codeTemplateFunction ''sortAList'' ''sort a list'' =
       ''export function sortAList(/* params */): any {\<newline>'' @
       ''  throw new Error('Not implemented');\<newline>'' @
       ''}\<newline>''"
proof -
  note T = codeTemplateFunction_priority [of "''reverseString''" "''Reverse a String''"]
  note U = codeTemplateFunction_priority [of "''sortAList''" "''sort a list''"]
  have sel: "codeTemplateFunction ''reverseString'' ''Reverse a String''
             = tpl_reverse ''reverseString''"
    by code_simp
  have both: "sublist ''reverse'' (toLowerCase ''Reverse a String'')
              \<and> sublist ''string'' (toLowerCase ''Reverse a String'')"
    using T [THEN conjunct2, THEN conjunct1] sel by blast
  have ty: "guessType ''Reverse a String'' = Function" by code_simp
  have off: "code (makeOfflinePlanAndCode ''Reverse a String'') =
       codeTemplateFunction (guessName ''Reverse a String'' Function) ''Reverse a String''"
    using T [THEN conjunct2, THEN conjunct2, THEN conjunct2] ty by blast
  have none: "\<not> sublist ''prime'' (toLowerCase ''sort a list'') \<and>
        \<not> sublist ''fib'' (toLowerCase ''sort a list'') \<and>
        \<not> sublist ''factorial'' (toLowerCase ''sort a list'') \<and>
        \<not> (sublist ''reverse'' (toLowerCase ''sort a list'') \<and>
           sublist ''string'' (toLowerCase ''sort a list'')) \<and>
        \<not> sublist ''debounce'' (toLowerCase ''sort a list'')"
    by code_simp
  have stub: "codeTemplateFunction ''sortAList'' ''sort a list'' =
       ''export function sortAList(/* params */): any {\<newline>'' @
       ''  throw new Error('Not implemented');\<newline>'' @
       ''}\<newline>''"
    using U [THEN conjunct2, THEN conjunct2, THEN conjunct1] none by simp
  from sel both ty off none stub show ?thesis by blast
qed

section \<open>The argument parser\<close>

text \<open>One equation for each branch of the loop body, and the induction rule they give.\<close>

lemma parse_ai: "parse_loop fl rest (''--ai'' # args) = parse_loop (fl\<lparr>ai := True\<rparr>) rest args"
  by simp

lemma parse_json:
  "parse_loop fl rest (''--json'' # args) = parse_loop (fl\<lparr>json := True\<rparr>) rest args"
  by simp

lemma parse_help:
  "parse_loop fl rest (''--help'' # args) = parse_loop (fl\<lparr>help := True\<rparr>) rest args"
  "parse_loop fl rest (''-h'' # args) = parse_loop (fl\<lparr>help := True\<rparr>) rest args"
  by simp_all

lemma parse_version:
  "parse_loop fl rest (''--version'' # args) = parse_loop (fl\<lparr>version := True\<rparr>) rest args"
  "parse_loop fl rest (''-v'' # args) = parse_loop (fl\<lparr>version := True\<rparr>) rest args"
  by simp_all

lemma parse_path:
  "nxt \<noteq> [] \<Longrightarrow> \<not> startsWith nxt ''--'' \<Longrightarrow>
   parse_loop fl rest (''--out'' # nxt # args) = parse_loop (fl\<lparr>out := Some nxt\<rparr>) rest args"
  by (simp add: takes_path_def)

lemma parse_inline:
  "parse_loop fl rest ((''--out='' @ v) # args) = parse_loop (fl\<lparr>out := Some v\<rparr>) rest args"
  by (simp add: startsWith_def)

lemma parse_other:
  "arg \<notin> set [''--ai'', ''--json'', ''--help'', ''-h'', ''--version'', ''-v''] \<Longrightarrow>
   \<not> (arg = ''--out'' \<and> takes_path args) \<Longrightarrow> \<not> startsWith arg ''--out='' \<Longrightarrow>
   parse_loop fl rest (arg # args) = parse_loop fl (rest @ [arg]) args"
  by auto

lemma parse_loop_cases [case_names Nil ai json hlp ver path inline other]:
  fixes P :: "Flags \<Rightarrow> string list \<Rightarrow> string list \<Rightarrow> bool"
  assumes "\<And>fl rest. P fl rest []"
    and "\<And>fl rest args. P (fl\<lparr>ai := True\<rparr>) rest args \<Longrightarrow> P fl rest (''--ai'' # args)"
    and "\<And>fl rest args. P (fl\<lparr>json := True\<rparr>) rest args \<Longrightarrow> P fl rest (''--json'' # args)"
    and "\<And>fl rest arg args. arg = ''--help'' \<or> arg = ''-h'' \<Longrightarrow>
           P (fl\<lparr>help := True\<rparr>) rest args \<Longrightarrow> P fl rest (arg # args)"
    and "\<And>fl rest arg args. arg = ''--version'' \<or> arg = ''-v'' \<Longrightarrow>
           P (fl\<lparr>version := True\<rparr>) rest args \<Longrightarrow> P fl rest (arg # args)"
    and "\<And>fl rest nxt args. nxt \<noteq> [] \<Longrightarrow> \<not> startsWith nxt ''--'' \<Longrightarrow>
           P (fl\<lparr>out := Some nxt\<rparr>) rest args \<Longrightarrow> P fl rest (''--out'' # nxt # args)"
    and "\<And>fl rest v args. P (fl\<lparr>out := Some v\<rparr>) rest args \<Longrightarrow>
           P fl rest ((''--out='' @ v) # args)"
    and "\<And>fl rest arg args.
           arg \<notin> set [''--ai'', ''--json'', ''--help'', ''-h'', ''--version'', ''-v''] \<Longrightarrow>
           \<not> (arg = ''--out'' \<and> takes_path args) \<Longrightarrow> \<not> startsWith arg ''--out='' \<Longrightarrow>
           P fl (rest @ [arg]) args \<Longrightarrow> P fl rest (arg # args)"
  shows "P fl rest args"
proof (induction fl rest args rule: parse_loop.induct)
  case (1 flags rest)
  show ?case by (rule assms(1))
next
  case (2 flags rest arg args)
  consider (ai) "arg = ''--ai''" | (json) "arg = ''--json''"
    | (hlp) "arg = ''--help'' \<or> arg = ''-h''"
    | (ver) "arg = ''--version'' \<or> arg = ''-v''"
    | (path) "arg = ''--out''" "takes_path args"
    | (inline) "startsWith arg ''--out=''"
    | (other) "arg \<notin> set [''--ai'', ''--json'', ''--help'', ''-h'', ''--version'', ''-v'']"
        "\<not> (arg = ''--out'' \<and> takes_path args)" "\<not> startsWith arg ''--out=''"
    by auto
  then show ?case
  proof cases
    case ai
    have "P (flags\<lparr>ai := True\<rparr>) rest args" by (rule "2.IH"(1)) (rule ai)
    then show ?thesis unfolding ai by (rule assms(2))
  next
    case json
    have "P (flags\<lparr>json := True\<rparr>) rest args"
      by (rule "2.IH"(2)) (simp_all add: json)
    then show ?thesis unfolding json by (rule assms(3))
  next
    case hlp
    have "P (flags\<lparr>help := True\<rparr>) rest args"
      using hlp by (intro "2.IH"(3)) auto
    with hlp show ?thesis by (rule assms(4))
  next
    case ver
    have "P (flags\<lparr>version := True\<rparr>) rest args"
      using ver by (intro "2.IH"(4)) auto
    with ver show ?thesis by (rule assms(5))
  next
    case path
    from path(2) obtain nxt args' where args: "args = nxt # args'"
      and nxt: "nxt \<noteq> []" "\<not> startsWith nxt ''--''"
      by (auto simp: takes_path_def split: list.splits)
    have "P (flags\<lparr>out := Some (hd args)\<rparr>) rest (tl args)"
      using path by (intro "2.IH"(5)) auto
    then have "P (flags\<lparr>out := Some nxt\<rparr>) rest args'" by (simp add: args)
    with nxt show ?thesis unfolding path(1) args by (rule assms(6))
  next
    case inline
    then obtain v where v: "arg = ''--out='' @ v"
      by (auto simp: startsWith_def prefix_def)
    have "P (flags\<lparr>out := Some (drop 6 arg)\<rparr>) rest args"
      using inline by (intro "2.IH"(6)) (auto simp: v)
    then have "P (flags\<lparr>out := Some v\<rparr>) rest args" by (simp add: v)
    then show ?thesis unfolding v by (rule assms(7))
  next
    case other
    have "P flags (rest @ [arg]) args"
      using other by (intro "2.IH"(7)) auto
    with other show ?thesis by (rule assms(8))
  qed
qed

lemma parse_inline_cons:
  "parse_loop fl rest
     ((CHR ''-'' # CHR ''-'' # CHR ''o'' # CHR ''u'' # CHR ''t'' # CHR ''='' # v) # args)
   = parse_loop (fl\<lparr>out := Some v\<rparr>) rest args"
  using parse_inline [of fl rest v args] by (simp del: parse_loop.simps(2))

lemmas parse_steps = parse_ai parse_json parse_help parse_version parse_path parse_inline_cons
  parse_other

lemma parse_loop_flags_rest:
  "fst (parse_loop fl r' args) = fst (parse_loop fl rest args)"
proof (induction fl rest args arbitrary: r' rule: parse_loop_cases)
  case (hlp fl rest arg args)
  then show ?case by (auto simp: parse_steps simp del: parse_loop.simps(2))
next
  case (ver fl rest arg args)
  then show ?case by (auto simp: parse_steps simp del: parse_loop.simps(2))
next
  case (other fl rest arg args)
  then show ?case by (simp add: parse_other del: parse_loop.simps(2))
qed (simp_all add: parse_steps del: parse_loop.simps(2))

lemma parse_loop_rest_append:
  "snd (parse_loop fl (r1 @ rest) args) = r1 @ snd (parse_loop fl rest args)"
proof (induction fl rest args arbitrary: r1 rule: parse_loop_cases)
  case (hlp fl rest arg args)
  then show ?case by (auto simp: parse_steps simp del: parse_loop.simps(2))
next
  case (ver fl rest arg args)
  then show ?case by (auto simp: parse_steps simp del: parse_loop.simps(2))
next
  case (other fl rest arg args)
  have "snd (parse_loop fl ((r1 @ rest) @ [arg]) args) = r1 @ snd (parse_loop fl (rest @ [arg]) args)"
    using other.IH [of r1] by simp
  then show ?case using other.hyps by (simp add: parse_other del: parse_loop.simps(2))
qed (simp_all add: parse_steps del: parse_loop.simps(2))

lemma parse_loop_subseq:
  "\<exists>ys. snd (parse_loop fl rest args) = rest @ ys \<and> subseq ys args"
proof (induction fl rest args rule: parse_loop_cases)
  case (hlp fl rest arg args)
  then show ?case by (auto simp: parse_steps simp del: parse_loop.simps(2))
next
  case (ver fl rest arg args)
  then show ?case by (auto simp: parse_steps simp del: parse_loop.simps(2))
next
  case (path fl rest nxt args)
  then obtain ys where "snd (parse_loop (fl\<lparr>out := Some nxt\<rparr>) rest args) = rest @ ys"
    and "subseq ys args" by blast
  then have "snd (parse_loop fl rest (''--out'' # nxt # args)) = rest @ ys
             \<and> subseq ys (''--out'' # nxt # args)"
    using path.hyps by (simp add: parse_path list_emb_Cons del: parse_loop.simps(2))
  then show ?case by blast
next
  case (other fl rest arg args)
  then obtain ys where "snd (parse_loop fl (rest @ [arg]) args) = (rest @ [arg]) @ ys"
    and "subseq ys args" by blast
  then have "snd (parse_loop fl rest (arg # args)) = rest @ (arg # ys)
             \<and> subseq (arg # ys) (arg # args)"
    using other.hyps by (simp add: parse_other del: parse_loop.simps(2))
  then show ?case by blast
qed (auto simp: parse_steps simp del: parse_loop.simps(2))

lemma takes_path_append: "args \<noteq> [] \<Longrightarrow> takes_path (args @ xs) = takes_path args"
  by (cases args) (simp_all add: takes_path_def)

lemma parse_loop_append:
  "pre = [] \<or> last pre \<noteq> ''--out'' \<or> \<not> takes_path (tok # post) \<Longrightarrow>
   parse_loop fl rest (pre @ tok # post) =
     parse_loop (fst (parse_loop fl rest pre)) (snd (parse_loop fl rest pre)) (tok # post)"
proof (induction fl rest pre rule: parse_loop_cases)
  case (Nil fl rest)
  show ?case by simp
next
  case (ai fl rest args)
  then show ?case by (simp add: parse_steps del: parse_loop.simps(2) split: if_splits)
next
  case (json fl rest args)
  then show ?case by (simp add: parse_steps del: parse_loop.simps(2) split: if_splits)
next
  case (hlp fl rest arg args)
  then show ?case by (auto simp: parse_steps simp del: parse_loop.simps(2) split: if_splits)
next
  case (ver fl rest arg args)
  then show ?case by (auto simp: parse_steps simp del: parse_loop.simps(2) split: if_splits)
next
  case (path fl rest nxt args)
  then show ?case by (simp add: parse_steps del: parse_loop.simps(2) split: if_splits)
next
  case (inline fl rest v args)
  then show ?case by (simp add: parse_steps del: parse_loop.simps(2) split: if_splits)
next
  case (other fl rest arg args)
  have ctx: "\<not> (arg = ''--out'' \<and> takes_path (args @ tok # post))"
  proof (cases "args = []")
    case True
    with other.prems other.hyps(2) show ?thesis by auto
  next
    case False
    with other.hyps(2) show ?thesis by (simp add: takes_path_append)
  qed
  have pre: "args = [] \<or> last args \<noteq> ''--out'' \<or> \<not> takes_path (tok # post)"
    using other.prems by (auto split: if_splits)
  have "parse_loop fl rest ((arg # args) @ tok # post)
        = parse_loop fl (rest @ [arg]) (args @ tok # post)"
    using other.hyps(1,3) ctx by (simp add: parse_other del: parse_loop.simps(2))
  also have "\<dots> = parse_loop (fst (parse_loop fl (rest @ [arg]) args))
                      (snd (parse_loop fl (rest @ [arg]) args)) (tok # post)"
    by (rule other.IH [OF pre])
  also have "parse_loop fl (rest @ [arg]) args = parse_loop fl rest (arg # args)"
    using other.hyps by (simp add: parse_other del: parse_loop.simps(2))
  finally show ?case .
qed


lemma join_sublist: "tok \<in> set xs \<Longrightarrow> sublist tok (join sep xs)"
proof (induction sep xs rule: join.induct)
  case (1 sep)
  then show ?case by simp
next
  case (2 sep x)
  then show ?case by simp
next
  case (3 sep x y ys)
  show ?case
  proof (cases "tok = x")
    case True
    then show ?thesis by simp
  next
    case False
    with 3 have "sublist tok (join sep (y # ys))" by simp
    then obtain a b where "join sep (y # ys) = a @ tok @ b"
      by (auto simp: sublist_def)
    then have "join sep (x # y # ys) = (x @ sep @ a) @ tok @ b" by simp
    then show ?thesis unfolding sublist_def by blast
  qed
qed

lemma sublist_dropWhile_keeps:
  assumes "sublist tok s" and "tok \<noteq> []" and "\<not> P (hd tok)"
  shows "sublist tok (dropWhile P s)"
proof -
  from assms(1) obtain a b where s: "s = a @ tok @ b" by (auto simp: sublist_def)
  from assms(2) obtain t ts where tok: "tok = t # ts" by (cases tok) auto
  show ?thesis
  proof (cases "\<forall>x \<in> set a. P x")
    case True
    then have "dropWhile P s = tok @ b"
      using assms(3) by (simp add: s tok dropWhile_append2)
    then show ?thesis by simp
  next
    case False
    then obtain x where "x \<in> set a" "\<not> P x" by blast
    then have "dropWhile P s = dropWhile P a @ tok @ b"
      by (simp add: s dropWhile_append1)
    then show ?thesis by simp
  qed
qed

lemma sublist_trim:
  assumes "sublist tok s" and "tok \<noteq> []" and "\<not> is_space (hd tok)" and "\<not> is_space (last tok)"
  shows "sublist tok (trim s)"
proof -
  have "sublist tok (dropWhile is_space s)"
    using assms(1,2,3) by (rule sublist_dropWhile_keeps)
  then have "sublist (rev tok) (rev (dropWhile is_space s))" by simp
  then have "sublist (rev tok) (dropWhile is_space (rev (dropWhile is_space s)))"
    using assms(2,4) by (intro sublist_dropWhile_keeps) (simp_all add: hd_rev)
  then show ?thesis by (simp add: trim_def sublist_rev_right)
qed

lemma parseArgs_loop:
  "parseArgs argv =
     (fst (parse_loop init_flags [] argv), trim (join '' '' (snd (parse_loop init_flags [] argv))))"
  by (simp add: parseArgs_def split: prod.splits)



lemma parse_loop_at_other:
  assumes "tok \<notin> set [''--ai'', ''--json'', ''--help'', ''-h'', ''--version'', ''-v'']"
    and "\<not> (tok = ''--out'' \<and> takes_path post)" and "\<not> startsWith tok ''--out=''"
    and "pre = [] \<or> last pre \<noteq> ''--out'' \<or> \<not> takes_path (tok # post)"
  shows "parse_loop fl rest (pre @ tok # post) =
           parse_loop (fst (parse_loop fl rest pre)) (snd (parse_loop fl rest pre) @ [tok]) post"
proof -
  have "parse_loop fl rest (pre @ tok # post) =
     parse_loop (fst (parse_loop fl rest pre)) (snd (parse_loop fl rest pre)) (tok # post)"
    using assms(4) by (rule parse_loop_append)
  then show ?thesis using assms(1,2,3) by (simp add: parse_other del: parse_loop.simps(2))
qed




lemma parse_loop_at_dangling_out:
  assumes "post = [] \<or> startsWith (hd post) ''--''"
  shows "parse_loop fl rest (pre @ ''--out'' # post) =
           parse_loop (fst (parse_loop fl rest pre)) (snd (parse_loop fl rest pre) @ [''--out''])
             post"
proof (rule parse_loop_at_other)
  show "''--out'' \<notin> set [''--ai'', ''--json'', ''--help'', ''-h'', ''--version'', ''-v'']"
    by simp
  show "\<not> (''--out'' = ''--out'' \<and> takes_path post)"
    using assms by (cases post) (auto simp: takes_path_def)
  show "\<not> startsWith ''--out'' ''--out=''"
    by (simp add: startsWith_def)
  show "pre = [] \<or> last pre \<noteq> ''--out'' \<or> \<not> takes_path (''--out'' # post)"
    by (simp add: takes_path_def startsWith_def)
qed

lemma parse_loop_skip_dangling_out:
  assumes "post = [] \<or> startsWith (hd post) ''--''"
  shows "fst (parse_loop fl rest (pre @ ''--out'' # post)) = fst (parse_loop fl rest (pre @ post))"
proof (cases post)
  case Nil
  then show ?thesis
    using parse_loop_at_dangling_out [OF assms, of fl rest pre] by simp
next
  case (Cons p ps)
  with assms have "\<not> takes_path (p # ps)"
    by (simp add: takes_path_def)
  then have "parse_loop fl rest (pre @ p # ps) =
      parse_loop (fst (parse_loop fl rest pre)) (snd (parse_loop fl rest pre)) (p # ps)"
    by (intro parse_loop_append) simp
  then show ?thesis
    using parse_loop_at_dangling_out [OF assms, of fl rest pre]
      parse_loop_flags_rest [of "fst (parse_loop fl rest pre)"
        "snd (parse_loop fl rest pre) @ [''--out'']" post "snd (parse_loop fl rest pre)"]
    by (simp add: Cons del: parse_loop.simps(2))
qed

text \<open>
  Claim C9. When \<^verbatim>\<open>--out\<close> is the last token, or the token after it starts with \<^verbatim>\<open>--\<close>,
  that \<^verbatim>\<open>--out\<close> sets no output path: the loop goes on with the flags unchanged and with
  \<^verbatim>\<open>--out\<close> appended to the prompt tokens, so the flags of the whole argument list are those
  of the list without this token, and \<^verbatim>\<open>--out\<close> is part of the prompt text. The parser is
  total: no error is raised.
\<close>

theorem dangling_out_joins_prompt:
  "post = [] \<or> startsWith (hd post) ''--'' \<Longrightarrow>
   parse_loop init_flags [] (pre @ ''--out'' # post) =
     parse_loop (fst (parse_loop init_flags [] pre))
       (snd (parse_loop init_flags [] pre) @ [''--out'']) post
   \<and> fst (parseArgs (pre @ ''--out'' # post)) = fst (parseArgs (pre @ post))
   \<and> ''--out'' \<in> set (snd (parse_loop init_flags [] (pre @ ''--out'' # post)))
   \<and> sublist ''--out'' (snd (parseArgs (pre @ ''--out'' # post)))"
proof -
  assume a: "post = [] \<or> startsWith (hd post) ''--''"
  have 1: "parse_loop init_flags [] (pre @ ''--out'' # post) =
     parse_loop (fst (parse_loop init_flags [] pre))
       (snd (parse_loop init_flags [] pre) @ [''--out'']) post"
    using a by (rule parse_loop_at_dangling_out)
  have 2: "fst (parseArgs (pre @ ''--out'' # post)) = fst (parseArgs (pre @ post))"
    unfolding parseArgs_loop fst_conv using a by (rule parse_loop_skip_dangling_out)
  obtain ys where "snd (parse_loop (fst (parse_loop init_flags [] pre))
       (snd (parse_loop init_flags [] pre) @ [''--out'']) post)
       = (snd (parse_loop init_flags [] pre) @ [''--out'']) @ ys"
    using parse_loop_subseq by blast
  then have 3: "''--out'' \<in> set (snd (parse_loop init_flags [] (pre @ ''--out'' # post)))"
    unfolding 1 by simp
  have "sublist ''--out'' (join '' '' (snd (parse_loop init_flags [] (pre @ ''--out'' # post))))"
    using 3 by (rule join_sublist)
  then have 4: "sublist ''--out'' (snd (parseArgs (pre @ ''--out'' # post)))"
    unfolding parseArgs_loop snd_conv
    by (rule sublist_trim) (simp_all add: is_space_def)
  from 1 2 3 4 show ?thesis by blast
qed

theorem dangling_out_joins_prompt_witness:
  "([''--out=a.ts'', ''--json''] = [] \<or> startsWith (hd [''--out=a.ts'', ''--json'']) ''--'')
   \<and> fst (parseArgs ([''sort''] @ ''--out'' # [''--out=a.ts'', ''--json'']))
       = fst (parseArgs ([''sort''] @ [''--out=a.ts'', ''--json'']))
   \<and> snd (parseArgs ([''sort''] @ ''--out'' # [''--out=a.ts'', ''--json''])) = ''sort --out''
   \<and> fst (parseArgs ([''sort''] @ ''--out'' # [])) = fst (parseArgs ([''sort''] @ []))
   \<and> out (fst (parseArgs [''sort'', ''--out''])) = None
   \<and> snd (parseArgs [''sort'', ''--out'']) = ''sort --out''"
proof -
  have h: "[''--out=a.ts'', ''--json''] = [] \<or> startsWith (hd [''--out=a.ts'', ''--json'']) ''--''"
    by code_simp
  have e: "snd (parseArgs ([''sort''] @ ''--out'' # [''--out=a.ts'', ''--json''])) = ''sort --out''"
    by code_simp
  have f: "out (fst (parseArgs [''sort'', ''--out''])) = None
           \<and> snd (parseArgs [''sort'', ''--out'']) = ''sort --out''"
    by code_simp
  from dangling_out_joins_prompt [OF h, of "[''sort'']"]
    dangling_out_joins_prompt [of "[]" "[''sort'']"] h e f
  show ?thesis by blast
qed

section \<open>The orchestrator\<close>

text \<open>
  Claim C7, as amended. When the version flag is set, \<^verbatim>\<open>main\<close> prints the version string
  and returns: nothing is classified, generated, fetched or written, and the exit code is 0.
  The claim says that usage is printed whenever the help flag is set or the prompt is empty;
  the version test comes first in the code, so this holds when the version flag is not set:
  then \<^verbatim>\<open>main\<close> prints the usage text and returns, and the exit code is 1 exactly when
  the prompt is empty.
\<close>

theorem main_early_exits:
  "(version (fst (parseArgs argv)) \<longrightarrow>
      main env argv = \<lparr>effects = [Log ''traycer-lite v0.1.0''], exitCode = 0\<rparr>)
   \<and> (\<not> version (fst (parseArgs argv)) \<and>
       (help (fst (parseArgs argv)) \<or> snd (parseArgs argv) = []) \<longrightarrow>
      main env argv =
        \<lparr>effects = [PrintHelp], exitCode = (if snd (parseArgs argv) = [] then 1 else 0)\<rparr>)"
  by (cases "parseArgs argv") (simp add: main_def run_def)

theorem main_early_exits_counterexample:
  "snd (parseArgs [''--version'']) = []
   \<and> effects (main example_env [''--version'']) = [Log ''traycer-lite v0.1.0'']
   \<and> exitCode (main example_env [''--version'']) = 0
   \<and> help (fst (parseArgs [''--version'', ''--help'', ''sort'']))
   \<and> effects (main example_env [''--version'', ''--help'', ''sort''])
       = [Log ''traycer-lite v0.1.0'']"
  by code_simp

theorem main_early_exits_witness:
  "version (fst (parseArgs [''-v'', ''--out'', ''a.ts'', ''sort'']))
   \<and> main example_env [''-v'', ''--out'', ''a.ts'', ''sort'']
       = \<lparr>effects = [Log ''traycer-lite v0.1.0''], exitCode = 0\<rparr>
   \<and> \<not> version (fst (parseArgs [''--ai''])) \<and> snd (parseArgs [''--ai'']) = []
   \<and> main example_env [''--ai''] = \<lparr>effects = [PrintHelp], exitCode = 1\<rparr>
   \<and> \<not> version (fst (parseArgs [''-h'', ''sort''])) \<and> help (fst (parseArgs [''-h'', ''sort'']))
   \<and> main example_env [''-h'', ''sort''] = \<lparr>effects = [PrintHelp], exitCode = 0\<rparr>"
proof -
  have v: "version (fst (parseArgs [''-v'', ''--out'', ''a.ts'', ''sort'']))" by code_simp
  have e: "\<not> version (fst (parseArgs [''--ai''])) \<and> snd (parseArgs [''--ai'']) = []"
    by code_simp
  have h: "\<not> version (fst (parseArgs [''-h'', ''sort''])) \<and> help (fst (parseArgs [''-h'', ''sort'']))
           \<and> snd (parseArgs [''-h'', ''sort'']) \<noteq> []"
    by code_simp
  from main_early_exits [of "[''-v'', ''--out'', ''a.ts'', ''sort'']" example_env] v
  have 1: "main example_env [''-v'', ''--out'', ''a.ts'', ''sort'']
       = \<lparr>effects = [Log ''traycer-lite v0.1.0''], exitCode = 0\<rparr>" by blast
  from main_early_exits [of "[''--ai'']" example_env] e
  have 2: "main example_env [''--ai''] = \<lparr>effects = [PrintHelp], exitCode = 1\<rparr>" by simp
  from main_early_exits [of "[''-h'', ''sort'']" example_env] h
  have 3: "main example_env [''-h'', ''sort''] = \<lparr>effects = [PrintHelp], exitCode = 0\<rparr>" by simp
  from v e h 1 2 3 show ?thesis by blast
qed

lemma ai_update_first:
  "fl\<lparr>json := j, ai := a\<rparr> = fl\<lparr>ai := a, json := j\<rparr>"
  "fl\<lparr>out := ou, ai := a\<rparr> = fl\<lparr>ai := a, out := ou\<rparr>"
  "fl\<lparr>help := h, ai := a\<rparr> = fl\<lparr>ai := a, help := h\<rparr>"
  "fl\<lparr>version := v, ai := a\<rparr> = fl\<lparr>ai := a, version := v\<rparr>"
  by (cases fl; simp)+

lemma parse_loop_ai_commute:
  "parse_loop (fl\<lparr>ai := True\<rparr>) rest args =
     ((fst (parse_loop fl rest args))\<lparr>ai := True\<rparr>, snd (parse_loop fl rest args))"
proof (induction fl rest args rule: parse_loop_cases)
  case (hlp fl rest arg args)
  then show ?case by (auto simp: parse_steps ai_update_first simp del: parse_loop.simps(2))
next
  case (ver fl rest arg args)
  then show ?case by (auto simp: parse_steps ai_update_first simp del: parse_loop.simps(2))
next
  case (other fl rest arg args)
  then show ?case by (simp add: parse_other del: parse_loop.simps(2))
qed (simp_all add: parse_steps ai_update_first del: parse_loop.simps(2))

lemma parseArgs_ai_first:
  "parseArgs (''--ai'' # argv) = ((fst (parseArgs argv))\<lparr>ai := True\<rparr>, snd (parseArgs argv))"
  by (simp add: parseArgs_loop parse_ai parse_loop_ai_commute del: parse_loop.simps(2))

lemma no_key_no_request:
  "api_key env = None \<or> api_key env = Some [] \<Longrightarrow> maybeAIPlanAndCode env prompt = ([], None)"
  by (auto simp: maybeAIPlanAndCode_def)

lemma select_result_no_key:
  "api_key env = None \<or> api_key env = Some [] \<Longrightarrow>
   select_result env flags prompt = ([], makeOfflinePlanAndCode prompt)"
  by (simp add: select_result_def no_key_no_request)

lemma run_no_key:
  assumes "api_key env = None \<or> api_key env = Some []"
  shows "run env flags prompt =
     (if version flags then \<lparr>effects = [Log ''traycer-lite v0.1.0''], exitCode = 0\<rparr>
      else if help flags \<or> prompt = []
        then \<lparr>effects = [PrintHelp], exitCode = (if prompt = [] then 1 else 0)\<rparr>
      else \<lparr>effects = render flags (makeOfflinePlanAndCode prompt) @
                       fst (save env flags (makeOfflinePlanAndCode prompt)),
            exitCode = snd (save env flags (makeOfflinePlanAndCode prompt))\<rparr>)"
  by (simp add: run_def select_result_no_key [OF assms] split: prod.splits)

lemma render_ai: "render (flags\<lparr>ai := b\<rparr>) result = render flags result"
  by (simp add: render_def)

lemma save_ai: "save env (flags\<lparr>ai := b\<rparr>) result = save env flags result"
  by (simp add: save_def)

lemma run_no_key_ai:
  assumes "api_key env = None \<or> api_key env = Some []"
  shows "run env (flags\<lparr>ai := b\<rparr>) prompt = run env flags prompt"
  by (simp add: run_no_key [OF assms] render_ai save_ai)

lemma plan_lines_no_request: "HttpPost key p \<notin> set (plan_lines i ss)"
  by (induction ss arbitrary: i) simp_all

lemma render_no_request: "HttpPost key p \<notin> set (render flags result)"
  by (simp add: render_def plan_lines_no_request)

lemma save_no_request: "HttpPost key p \<notin> set (fst (save env flags result))"
  by (simp add: save_def Let_def split: option.splits)

text \<open>
  Claim C8. When the API key is absent (the environment variable is unset or empty), the
  remote adapter returns no result and sends no request, and a run with the \<^verbatim>\<open>ai\<close> flag is
  the run without it: the same effects in the same order (rendering and file writes) and
  the same exit code, for every prompt and all other flags.
\<close>

theorem ai_without_key_is_offline:
  "api_key env = None \<or> api_key env = Some [] \<Longrightarrow>
   maybeAIPlanAndCode env prompt = ([], None)
   \<and> select_result env (flags\<lparr>ai := True\<rparr>) prompt = ([], makeOfflinePlanAndCode prompt)
   \<and> run env (flags\<lparr>ai := True\<rparr>) prompt = run env (flags\<lparr>ai := False\<rparr>) prompt
   \<and> main env (''--ai'' # argv) = main env argv
   \<and> (\<forall>key p. HttpPost key p \<notin> set (effects (run env (flags\<lparr>ai := True\<rparr>) prompt)))"
proof -
  assume k: "api_key env = None \<or> api_key env = Some []"
  have 1: "maybeAIPlanAndCode env prompt = ([], None)"
    using k by (rule no_key_no_request)
  have 2: "select_result env (flags\<lparr>ai := True\<rparr>) prompt = ([], makeOfflinePlanAndCode prompt)"
    using k by (rule select_result_no_key)
  have 3: "run env (flags\<lparr>ai := True\<rparr>) prompt = run env (flags\<lparr>ai := False\<rparr>) prompt"
    by (simp add: run_no_key_ai [OF k])
  have 4: "main env (''--ai'' # argv) = main env argv"
    by (simp add: main_def parseArgs_ai_first run_no_key_ai [OF k] split: prod.splits)
  have 5: "\<forall>key p. HttpPost key p \<notin> set (effects (run env (flags\<lparr>ai := True\<rparr>) prompt))"
    by (simp add: run_no_key [OF k] render_no_request save_no_request)
  from 1 2 3 4 5 show ?thesis by blast
qed

theorem ai_without_key_is_offline_witness:
  "(api_key example_env = None \<or> api_key example_env = Some [])
   \<and> run example_env (init_flags\<lparr>out := Some ''p.ts'', ai := True\<rparr>) ''check prime''
       = run example_env (init_flags\<lparr>out := Some ''p.ts'', ai := False\<rparr>) ''check prime''
   \<and> main example_env (''--ai'' # [''--json'', ''check'', ''prime''])
       = main example_env [''--json'', ''check'', ''prime'']
   \<and> effects (main example_env [''--json'', ''check'', ''prime''])
       = [LogJson (makeOfflinePlanAndCode ''check prime'')]"
proof -
  have k: "api_key example_env = None \<or> api_key example_env = Some []"
    by (simp add: example_env_def)
  have e: "effects (main example_env [''--json'', ''check'', ''prime''])
       = [LogJson (makeOfflinePlanAndCode ''check prime'')]"
    by code_simp
  from ai_without_key_is_offline [OF k, of "''check prime''" "init_flags\<lparr>out := Some ''p.ts''\<rparr>"
      "[''--json'', ''check'', ''prime'']"] k e
  show ?thesis by blast
qed

end
